theory Spec2Isabelle
  imports Complex_Main
begin

section \<open>JavaScript numbers\<close>

text \<open>
  The renderer computes with JavaScript numbers: a number is a real, or one of the three
  special values of IEEE arithmetic. An operation on finite numbers rounds its exact
  result to a double, and may overflow to an infinity. What the rounding returns is a
  parameter of the model, \<open>round64\<close>, and so are the rounding of a store into a
  Float32Array, \<open>round32\<close>, and the values of \<open>Math.tan\<close>, \<open>tan64\<close>: a theorem that
  names no arithmetic holds for every one of them, the doubles of a JavaScript engine
  included. A result that is exactly zero stays zero. The sign of zero is not modelled: a
  zero divisor is taken as \<open>+0\<close>.
\<close>

datatype jsnum = NaN | NegInf | PosInf | Fin real

text \<open>The values \<open>Math.floor\<close> and \<open>Math.ceil\<close> return: an integer, an infinity or NaN.\<close>

datatype jsint = INaN | INegInf | IPosInf | IFin int

record arith =
  round64 :: "real \<Rightarrow> jsnum"
  round32 :: "real \<Rightarrow> jsnum"
  tan64 :: "real \<Rightarrow> jsnum"

definition rnd :: "arith \<Rightarrow> real \<Rightarrow> jsnum" where
  "rnd fp x = (if x = 0 then Fin 0 else round64 fp x)"

text \<open>A number stored into a Float32Array, as gl-matrix keeps its vectors.\<close>

fun toFloat32 :: "arith \<Rightarrow> jsnum \<Rightarrow> jsnum" where
  "toFloat32 fp (Fin x) = (if x = 0 then Fin 0 else round32 fp x)"
| "toFloat32 fp v = v"

fun js_neg :: "jsnum \<Rightarrow> jsnum" where
  "js_neg NaN = NaN"
| "js_neg NegInf = PosInf"
| "js_neg PosInf = NegInf"
| "js_neg (Fin a) = Fin (- a)"

fun js_add :: "arith \<Rightarrow> jsnum \<Rightarrow> jsnum \<Rightarrow> jsnum" where
  "js_add fp NaN _ = NaN"
| "js_add fp _ NaN = NaN"
| "js_add fp PosInf NegInf = NaN"
| "js_add fp NegInf PosInf = NaN"
| "js_add fp PosInf _ = PosInf"
| "js_add fp _ PosInf = PosInf"
| "js_add fp NegInf _ = NegInf"
| "js_add fp _ NegInf = NegInf"
| "js_add fp (Fin a) (Fin b) = rnd fp (a + b)"

definition js_sub :: "arith \<Rightarrow> jsnum \<Rightarrow> jsnum \<Rightarrow> jsnum" where
  "js_sub fp a b = js_add fp a (js_neg b)"

fun js_mul :: "arith \<Rightarrow> jsnum \<Rightarrow> jsnum \<Rightarrow> jsnum" where
  "js_mul fp NaN _ = NaN"
| "js_mul fp _ NaN = NaN"
| "js_mul fp (Fin a) (Fin b) = rnd fp (a * b)"
| "js_mul fp (Fin a) PosInf = (if a = 0 then NaN else if 0 < a then PosInf else NegInf)"
| "js_mul fp (Fin a) NegInf = (if a = 0 then NaN else if 0 < a then NegInf else PosInf)"
| "js_mul fp PosInf (Fin b) = (if b = 0 then NaN else if 0 < b then PosInf else NegInf)"
| "js_mul fp NegInf (Fin b) = (if b = 0 then NaN else if 0 < b then NegInf else PosInf)"
| "js_mul fp PosInf PosInf = PosInf"
| "js_mul fp PosInf NegInf = NegInf"
| "js_mul fp NegInf PosInf = NegInf"
| "js_mul fp NegInf NegInf = PosInf"

text \<open>Division; a zero divisor is taken as \<open>+0\<close>.\<close>

fun js_div :: "arith \<Rightarrow> jsnum \<Rightarrow> jsnum \<Rightarrow> jsnum" where
  "js_div fp NaN _ = NaN"
| "js_div fp _ NaN = NaN"
| "js_div fp (Fin a) (Fin b) =
     (if b = 0 then (if a = 0 then NaN else if 0 < a then PosInf else NegInf)
      else rnd fp (a / b))"
| "js_div fp (Fin a) _ = Fin 0"
| "js_div fp PosInf (Fin b) = (if 0 \<le> b then PosInf else NegInf)"
| "js_div fp NegInf (Fin b) = (if 0 \<le> b then NegInf else PosInf)"
| "js_div fp _ _ = NaN"

text \<open>\<open>Math.PI\<close> is the double next to \<open>pi\<close>; \<open>Math.tan\<close> of an infinity or of NaN is NaN.\<close>

definition Math_PI :: "arith \<Rightarrow> jsnum" where
  "Math_PI fp = rnd fp pi"

fun Math_tan :: "arith \<Rightarrow> jsnum \<Rightarrow> jsnum" where
  "Math_tan fp (Fin x) = (if x = 0 then Fin 0 else tan64 fp x)"
| "Math_tan fp v = NaN"

text \<open>
  The arithmetic without rounding, in which \<open>Math.PI\<close> is \<open>pi\<close> and the tangent is the
  exact one, infinite at its poles. The doubles differ from it by their rounding errors:
  \<open>Math.tan(Math.PI / 4)\<close> is \<open>0.9999999999999999\<close> where the exact tangent is 1. The
  examples are evaluated in this arithmetic.
\<close>

definition exact :: arith where
  "exact = \<lparr>round64 = Fin, round32 = Fin,
            tan64 = (\<lambda>x. if cos x = 0 then PosInf else Fin (tan x))\<rparr>"

fun Math_floor :: "jsnum \<Rightarrow> jsint" where
  "Math_floor NaN = INaN"
| "Math_floor NegInf = INegInf"
| "Math_floor PosInf = IPosInf"
| "Math_floor (Fin a) = IFin \<lfloor>a\<rfloor>"

fun Math_ceil :: "jsnum \<Rightarrow> jsint" where
  "Math_ceil NaN = INaN"
| "Math_ceil NegInf = INegInf"
| "Math_ceil PosInf = IPosInf"
| "Math_ceil (Fin a) = IFin \<lceil>a\<rceil>"

fun Math_max :: "jsint \<Rightarrow> jsint \<Rightarrow> jsint" where
  "Math_max INaN _ = INaN"
| "Math_max _ INaN = INaN"
| "Math_max IPosInf _ = IPosInf"
| "Math_max _ IPosInf = IPosInf"
| "Math_max INegInf b = b"
| "Math_max a INegInf = a"
| "Math_max (IFin a) (IFin b) = IFin (max a b)"

fun Math_min :: "jsint \<Rightarrow> jsint \<Rightarrow> jsint" where
  "Math_min INaN _ = INaN"
| "Math_min _ INaN = INaN"
| "Math_min INegInf _ = INegInf"
| "Math_min _ INegInf = INegInf"
| "Math_min IPosInf b = b"
| "Math_min a IPosInf = a"
| "Math_min (IFin a) (IFin b) = IFin (min a b)"

text \<open>
  The values a loop \<open>for (let v = lo; v < hi; ++v)\<close> runs through. A comparison with NaN
  is false, so a NaN bound gives no iteration. The bounds of every loop of the renderer
  are integers or NaN (lemma \<open>lightClusterRange_axes\<close> below), never an infinity.
\<close>

fun forRange :: "jsint \<Rightarrow> jsint \<Rightarrow> int list" where
  "forRange (IFin lo) (IFin hi) = [lo..hi - 1]"
| "forRange _ _ = []"

section \<open>The cluster texture\<close>

definition MAX_LIGHTS_PER_CLUSTER :: nat where
  "MAX_LIGHTS_PER_CLUSTER = 500"

datatype error = RangeError

record textureBuffer =
  pixelsPerElement :: int
  buffer :: "nat list"

text \<open>
  Modelled from the spec: the class TextureBuffer (textureBuffer.js) is imported by
  base.js and is not among the sources. The spec gives the packed buffer as a flat array
  of \<open>elementCount * elementSize * 4\<close> numbers, \<open>elementSize = ceil((MAX_LIGHTS_PER_CLUSTER+1)/4)\<close>
  groups of four, and \<open>bufferIndex(c, g) = c * elementSize * 4 + g * 4\<close>. A typed array
  starts filled with zeros, and allocating one of negative length raises RangeError.
  The numbers stored are light counts and light indices, so the store is a list of
  naturals.
\<close>

definition newTextureBuffer :: "int \<Rightarrow> int \<Rightarrow> error + textureBuffer" where
  "newTextureBuffer elementCount elementSize =
     (let pixels = \<lceil>real_of_int elementSize / 4\<rceil>;
          len = elementCount * pixels * 4
      in if len < 0 then Inl RangeError
         else Inr \<lparr>pixelsPerElement = pixels, buffer = replicate (nat len) 0\<rparr>)"

definition bufferIndex :: "textureBuffer \<Rightarrow> int \<Rightarrow> int \<Rightarrow> int" where
  "bufferIndex tb c g = c * pixelsPerElement tb * 4 + g * 4"

text \<open>
  Reading and writing a typed array at a numeric index: a read out of range gives
  \<open>undefined\<close> (None), a write out of range is ignored.
\<close>

definition bufRead :: "nat list \<Rightarrow> int \<Rightarrow> nat option" where
  "bufRead buf k = (if 0 \<le> k \<and> k < int (length buf) then Some (buf ! nat k) else None)"

definition bufWrite :: "nat list \<Rightarrow> int \<Rightarrow> nat \<Rightarrow> nat list" where
  "bufWrite buf k v = (if 0 \<le> k \<and> k < int (length buf) then buf[nat k := v] else buf)"

section \<open>The renderer\<close>

record renderer =
  clusterTexture :: textureBuffer
  xSlices :: int
  ySlices :: int
  zSlices :: int
  elementCount :: int
  elementSize :: int

definition BaseRenderer_constructor :: "int \<Rightarrow> int \<Rightarrow> int \<Rightarrow> error + renderer" where
  "BaseRenderer_constructor xs ys zs =
     (case newTextureBuffer (xs * ys * zs) (int MAX_LIGHTS_PER_CLUSTER + 1) of
        Inl e \<Rightarrow> Inl e
      | Inr tb \<Rightarrow>
          Inr \<lparr>clusterTexture = tb, xSlices = xs, ySlices = ys, zSlices = zs,
               elementCount = xs * ys * zs,
               elementSize = \<lceil>(real MAX_LIGHTS_PER_CLUSTER + 1.0) / 4.0\<rceil>\<rparr>)"

text \<open>The 1D grid index of the cluster \<open>(x, y, z)\<close>, as both loops of updateClusters compute it.\<close>

definition clusterIndex1D :: "renderer \<Rightarrow> int \<Rightarrow> int \<Rightarrow> int \<Rightarrow> int" where
  "clusterIndex1D r x y z = x + y * xSlices r + z * xSlices r * ySlices r"

section \<open>Scene, camera and view transform\<close>

type_synonym vec3 = "real \<times> real \<times> real"

text \<open>A vector of gl-matrix: three numbers kept in a Float32Array.\<close>

type_synonym jsvec3 = "jsnum \<times> jsnum \<times> jsnum"

text \<open>A 4x4 matrix in gl-matrix's layout: sixteen numbers, column-major, read by index.\<close>

type_synonym mat4 = "nat \<Rightarrow> real"

definition elem0 :: "'a \<times> 'a \<times> 'a \<Rightarrow> 'a" where
  "elem0 v = fst v"

definition elem1 :: "'a \<times> 'a \<times> 'a \<Rightarrow> 'a" where
  "elem1 v = fst (snd v)"

definition elem2 :: "'a \<times> 'a \<times> 'a \<Rightarrow> 'a" where
  "elem2 v = snd (snd v)"

text \<open>
  The inputs of a frame are finite numbers: the position and the radius of a light, the
  fields of the camera, the entries of the view matrix.
\<close>

record light =
  position :: vec3
  radius :: real

record camera =
  near :: real
  far :: real
  fov :: real
  aspect :: real

record scene =
  lights :: "light list"

text \<open>
  \<open>vec3.transformMat4\<close> of the gl-matrix library. \<open>matRow m i x y z\<close> is the sum
  \<open>m[i] * x + m[i + 4] * y + m[i + 8] * z + m[i + 12]\<close>, added from the left as JavaScript
  does. The point is multiplied by the matrix and divided by the resulting \<open>w\<close>, where
  \<open>w = w || 1.0\<close> replaces a zero and NaN by one; the three quotients are stored into a
  Float32Array.
\<close>

definition matRow :: "arith \<Rightarrow> mat4 \<Rightarrow> nat \<Rightarrow> jsnum \<Rightarrow> jsnum \<Rightarrow> jsnum \<Rightarrow> jsnum" where
  "matRow fp m i x y z =
     js_add fp
       (js_add fp (js_add fp (js_mul fp (Fin (m i)) x) (js_mul fp (Fin (m (i + 4))) y))
          (js_mul fp (Fin (m (i + 8))) z))
       (Fin (m (i + 12)))"

fun orOne :: "jsnum \<Rightarrow> jsnum" where
  "orOne NaN = Fin 1.0"
| "orOne (Fin w) = (if w = 0 then Fin 1.0 else Fin w)"
| "orOne w = w"

definition transformMat4 :: "arith \<Rightarrow> jsvec3 \<Rightarrow> mat4 \<Rightarrow> jsvec3" where
  "transformMat4 fp a m =
     (let x = elem0 a; y = elem1 a; z = elem2 a;
          w = orOne (matRow fp m 3 x y z)
      in (toFloat32 fp (js_div fp (matRow fp m 0 x y z) w),
          toFloat32 fp (js_div fp (matRow fp m 1 x y z) w),
          toFloat32 fp (js_div fp (matRow fp m 2 x y z) w)))"

section \<open>updateClusters: the cluster range of one light\<close>

definition clampClusterIndex :: "jsint \<Rightarrow> jsint \<Rightarrow> jsint \<Rightarrow> jsint" where
  "clampClusterIndex val mn mx = Math_min (Math_max val mn) mx"

text \<open>STEP 2: the bounding box of the light, a vector of gl-matrix.\<close>

definition bbMin :: "arith \<Rightarrow> light \<Rightarrow> jsvec3" where
  "bbMin fp l =
     (toFloat32 fp (js_sub fp (Fin (elem0 (position l))) (Fin (radius l))),
      toFloat32 fp (js_sub fp (Fin (elem1 (position l))) (Fin (radius l))),
      toFloat32 fp (js_sub fp (Fin (elem2 (position l))) (Fin (radius l))))"

definition bbMax :: "arith \<Rightarrow> light \<Rightarrow> jsvec3" where
  "bbMax fp l =
     (toFloat32 fp (js_add fp (Fin (elem0 (position l))) (Fin (radius l))),
      toFloat32 fp (js_add fp (Fin (elem1 (position l))) (Fin (radius l))),
      toFloat32 fp (js_add fp (Fin (elem2 (position l))) (Fin (radius l))))"

text \<open>STEP 3: both corners in view space.\<close>

definition viewBBMin :: "arith \<Rightarrow> mat4 \<Rightarrow> light \<Rightarrow> jsvec3" where
  "viewBBMin fp viewMatrix l = transformMat4 fp (bbMin fp l) viewMatrix"

definition viewBBMax :: "arith \<Rightarrow> mat4 \<Rightarrow> light \<Rightarrow> jsvec3" where
  "viewBBMax fp viewMatrix l = transformMat4 fp (bbMax fp l) viewMatrix"

text \<open>STEP 4: the lengths of the sub-frustum.\<close>

definition zNear :: "arith \<Rightarrow> mat4 \<Rightarrow> light \<Rightarrow> jsnum" where
  "zNear fp viewMatrix l = js_mul fp (Fin (- 1.0)) (elem2 (viewBBMin fp viewMatrix l))"

definition zFar :: "arith \<Rightarrow> mat4 \<Rightarrow> light \<Rightarrow> jsnum" where
  "zFar fp viewMatrix l = js_mul fp (Fin (- 1.0)) (elem2 (viewBBMax fp viewMatrix l))"

definition zStep :: "arith \<Rightarrow> renderer \<Rightarrow> camera \<Rightarrow> jsnum" where
  "zStep fp r cam =
     js_div fp (js_sub fp (Fin (far cam)) (Fin (near cam))) (Fin (of_int (zSlices r)))"

definition tanFov :: "arith \<Rightarrow> camera \<Rightarrow> jsnum" where
  "tanFov fp cam =
     Math_tan fp (js_mul fp (js_mul fp (Fin 0.5) (Fin (fov cam)))
                            (js_div fp (Math_PI fp) (Fin 180.0)))"

definition halfYLenNear :: "arith \<Rightarrow> camera \<Rightarrow> mat4 \<Rightarrow> light \<Rightarrow> jsnum" where
  "halfYLenNear fp cam viewMatrix l = js_mul fp (zNear fp viewMatrix l) (tanFov fp cam)"

definition halfXLenNear :: "arith \<Rightarrow> camera \<Rightarrow> mat4 \<Rightarrow> light \<Rightarrow> jsnum" where
  "halfXLenNear fp cam viewMatrix l =
     js_mul fp (halfYLenNear fp cam viewMatrix l) (Fin (aspect cam))"

definition halfYLenFar :: "arith \<Rightarrow> camera \<Rightarrow> mat4 \<Rightarrow> light \<Rightarrow> jsnum" where
  "halfYLenFar fp cam viewMatrix l = js_mul fp (zFar fp viewMatrix l) (tanFov fp cam)"

definition halfXLenFar :: "arith \<Rightarrow> camera \<Rightarrow> mat4 \<Rightarrow> light \<Rightarrow> jsnum" where
  "halfXLenFar fp cam viewMatrix l =
     js_mul fp (halfYLenFar fp cam viewMatrix l) (Fin (aspect cam))"

text \<open>STEP 5: the cluster indices before they are clamped.\<close>

definition xMinRaw :: "arith \<Rightarrow> renderer \<Rightarrow> camera \<Rightarrow> mat4 \<Rightarrow> light \<Rightarrow> jsint" where
  "xMinRaw fp r cam viewMatrix l =
     Math_floor (js_add fp (elem0 (viewBBMin fp viewMatrix l))
       (js_div fp (js_mul fp (Fin (of_int (xSlices r))) (halfXLenNear fp cam viewMatrix l))
                  (js_mul fp (Fin 2.0) (halfXLenNear fp cam viewMatrix l))))"

definition xMaxRaw :: "arith \<Rightarrow> renderer \<Rightarrow> camera \<Rightarrow> mat4 \<Rightarrow> light \<Rightarrow> jsint" where
  "xMaxRaw fp r cam viewMatrix l =
     Math_ceil (js_add fp (elem0 (viewBBMax fp viewMatrix l))
       (js_div fp (js_mul fp (Fin (of_int (xSlices r))) (halfXLenFar fp cam viewMatrix l))
                  (js_mul fp (Fin 2.0) (halfXLenFar fp cam viewMatrix l))))"

definition yMinRaw :: "arith \<Rightarrow> renderer \<Rightarrow> camera \<Rightarrow> mat4 \<Rightarrow> light \<Rightarrow> jsint" where
  "yMinRaw fp r cam viewMatrix l =
     Math_floor (js_add fp (elem1 (viewBBMin fp viewMatrix l))
       (js_div fp (js_mul fp (Fin (of_int (ySlices r))) (halfYLenNear fp cam viewMatrix l))
                  (js_mul fp (Fin 2.0) (halfYLenNear fp cam viewMatrix l))))"

definition yMaxRaw :: "arith \<Rightarrow> renderer \<Rightarrow> camera \<Rightarrow> mat4 \<Rightarrow> light \<Rightarrow> jsint" where
  "yMaxRaw fp r cam viewMatrix l =
     Math_ceil (js_add fp (elem1 (viewBBMax fp viewMatrix l))
       (js_div fp (js_mul fp (Fin (of_int (ySlices r))) (halfYLenFar fp cam viewMatrix l))
                  (js_mul fp (Fin 2.0) (halfYLenFar fp cam viewMatrix l))))"

definition zMinRaw :: "arith \<Rightarrow> renderer \<Rightarrow> camera \<Rightarrow> mat4 \<Rightarrow> light \<Rightarrow> jsint" where
  "zMinRaw fp r cam viewMatrix l =
     Math_floor (js_div fp (zNear fp viewMatrix l) (zStep fp r cam))"

definition zMaxRaw :: "arith \<Rightarrow> renderer \<Rightarrow> camera \<Rightarrow> mat4 \<Rightarrow> light \<Rightarrow> jsint" where
  "zMaxRaw fp r cam viewMatrix l =
     Math_ceil (js_div fp (zFar fp viewMatrix l) (zStep fp r cam))"

record clusterRange =
  xMin :: jsint
  xMax :: jsint
  yMin :: jsint
  yMax :: jsint
  zMin :: jsint
  zMax :: jsint

text \<open>The indices clamped to the grid, then min and max swapped if necessary.\<close>

definition lightClusterRange ::
  "arith \<Rightarrow> renderer \<Rightarrow> camera \<Rightarrow> mat4 \<Rightarrow> light \<Rightarrow> clusterRange" where
  "lightClusterRange fp r cam viewMatrix l =
     (let xMin0 = clampClusterIndex (xMinRaw fp r cam viewMatrix l) (IFin 0) (IFin (xSlices r));
          xMax0 = clampClusterIndex (xMaxRaw fp r cam viewMatrix l) (IFin 0) (IFin (xSlices r));
          yMin0 = clampClusterIndex (yMinRaw fp r cam viewMatrix l) (IFin 0) (IFin (ySlices r));
          yMax0 = clampClusterIndex (yMaxRaw fp r cam viewMatrix l) (IFin 0) (IFin (ySlices r));
          zMin0 = clampClusterIndex (zMinRaw fp r cam viewMatrix l) (IFin 0) (IFin (zSlices r));
          zMax0 = clampClusterIndex (zMaxRaw fp r cam viewMatrix l) (IFin 0) (IFin (zSlices r))
      in \<lparr>xMin = Math_min xMin0 xMax0, xMax = Math_max xMin0 xMax0,
          yMin = Math_min yMin0 yMax0, yMax = Math_max yMin0 yMax0,
          zMin = Math_min zMin0 zMax0, zMax = Math_max zMin0 zMax0\<rparr>)"

section \<open>updateClusters: the two loops over the grid\<close>

text \<open>The first loop nest: the light count of every cluster is reset to 0.\<close>

definition resetCounts :: "renderer \<Rightarrow> nat list \<Rightarrow> nat list" where
  "resetCounts r buf =
     fold (\<lambda>z b. fold (\<lambda>y b. fold (\<lambda>x b.
             bufWrite b (bufferIndex (clusterTexture r) (clusterIndex1D r x y z) 0) 0)
           (forRange (IFin 0) (IFin (xSlices r))) b)
         (forRange (IFin 0) (IFin (ySlices r))) b)
       (forRange (IFin 0) (IFin (zSlices r))) buf"

text \<open>
  The body of the innermost loop of STEP 6 for the cluster \<open>clusterIdx\<close> and the light
  \<open>i\<close>. A count slot that reads \<open>undefined\<close> fails the comparison with the maximum.
\<close>

definition pixelNum :: "nat \<Rightarrow> int" where
  "pixelNum lightIdx = int (lightIdx div 4)"

definition pixelComponent :: "nat \<Rightarrow> int" where
  "pixelComponent lightIdx = int (lightIdx mod 4)"

definition addLight :: "renderer \<Rightarrow> nat list \<Rightarrow> int \<Rightarrow> nat \<Rightarrow> nat list" where
  "addLight r buf clusterIdx i =
     (let lightCountIdx = bufferIndex (clusterTexture r) clusterIdx 0
      in case bufRead buf lightCountIdx of
           None \<Rightarrow> buf
         | Some cnt \<Rightarrow>
             if cnt < MAX_LIGHTS_PER_CLUSTER then
               (let buf1 = bufWrite buf lightCountIdx (cnt + 1)
                in case bufRead buf1 lightCountIdx of
                     None \<Rightarrow> buf1
                   | Some lightIdx \<Rightarrow>
                       bufWrite buf1
                         (bufferIndex (clusterTexture r) clusterIdx (pixelNum lightIdx)
                            + pixelComponent lightIdx) i)
             else buf)"

definition populateLight :: "renderer \<Rightarrow> clusterRange \<Rightarrow> nat \<Rightarrow> nat list \<Rightarrow> nat list" where
  "populateLight r rg i buf =
     fold (\<lambda>z b. fold (\<lambda>y b. fold (\<lambda>x b. addLight r b (clusterIndex1D r x y z) i)
           (forRange (xMin rg) (xMax rg)) b)
         (forRange (yMin rg) (yMax rg)) b)
       (forRange (zMin rg) (zMax rg)) buf"

text \<open>
  updateClusters: the reset, then every light of the scene in order. The upload of the
  texture to the GPU that ends it does not change the buffer; the parameter
  \<open>wireframe\<close> is not used. No step of it can raise in JavaScript: the arithmetic
  gives NaN or an infinity where it is undefined, a typed array reads \<open>undefined\<close> and
  ignores a write out of range, and every loop is bounded. So the model is a total
  function with no error value.
\<close>

definition populate ::
  "arith \<Rightarrow> renderer \<Rightarrow> camera \<Rightarrow> mat4 \<Rightarrow> light list \<Rightarrow> nat list \<Rightarrow> nat list" where
  "populate fp r cam viewMatrix ls buf =
     fold (\<lambda>i b. populateLight r (lightClusterRange fp r cam viewMatrix (ls ! i)) i b)
       [0..<length ls] buf"

definition updateClusters ::
  "arith \<Rightarrow> renderer \<Rightarrow> camera \<Rightarrow> mat4 \<Rightarrow> scene \<Rightarrow> renderer" where
  "updateClusters fp r cam viewMatrix sc =
     r\<lparr>clusterTexture := (clusterTexture r)
         \<lparr>buffer := populate fp r cam viewMatrix (lights sc)
                      (resetCounts r (buffer (clusterTexture r)))\<rparr>\<rparr>"

text \<open>
  What a cluster's record holds, read at the places updateClusters writes: component 0 is
  the light count, component \<open>k\<close> for \<open>k\<close> from 1 is the \<open>k\<close>-th light index.
\<close>

definition clusterComponent :: "renderer \<Rightarrow> int \<Rightarrow> nat \<Rightarrow> nat option" where
  "clusterComponent r c k =
     bufRead (buffer (clusterTexture r))
       (bufferIndex (clusterTexture r) c (pixelNum k) + pixelComponent k)"

text \<open>The cluster \<open>(x, y, z)\<close> lies in the range of a light.\<close>

definition inClusterRange :: "clusterRange \<Rightarrow> int \<Rightarrow> int \<Rightarrow> int \<Rightarrow> bool" where
  "inClusterRange rg x y z \<longleftrightarrow>
     x \<in> set (forRange (xMin rg) (xMax rg)) \<and> y \<in> set (forRange (yMin rg) (yMax rg))
     \<and> z \<in> set (forRange (zMin rg) (zMax rg))"

section \<open>The fragment shader's cluster index\<close>

text \<open>
  Lines 98 to 110 of the deferred fragment shader, over real numbers without rounding.
  \<open>int(v)\<close> drops the fractional part; the result of a division by zero is undefined in
  GLSL, which is the value None here.
\<close>

definition glsl_int :: "real \<Rightarrow> int" where
  "glsl_int v = (if 0 \<le> v then \<lfloor>v\<rfloor> else \<lceil>v\<rceil>)"

definition shaderViewPos :: "mat4 \<Rightarrow> vec3 \<Rightarrow> vec3" where
  "shaderViewPos u_viewMatrix pos =
     (let x = elem0 pos; y = elem1 pos; z = elem2 pos
      in (u_viewMatrix 0 * x + u_viewMatrix 4 * y + u_viewMatrix 8 * z + u_viewMatrix 12,
          u_viewMatrix 1 * x + u_viewMatrix 5 * y + u_viewMatrix 9 * z + u_viewMatrix 13,
          u_viewMatrix 2 * x + u_viewMatrix 6 * y + u_viewMatrix 10 * z + u_viewMatrix 14))"

definition shaderClusterIndex :: "vec3 \<Rightarrow> real \<Rightarrow> real \<Rightarrow> real \<Rightarrow> vec3 \<Rightarrow> int option" where
  "shaderClusterIndex viewPos u_fov u_aspect u_clipDist u_slices =
     (let tanFov = tan (0.5 * u_fov * (pi / 180.0));
          halfYLen = elem2 viewPos * tanFov;
          halfXLen = halfYLen * u_aspect
      in if 2.0 * halfXLen = 0 \<or> 2.0 * halfYLen = 0 \<or> elem2 u_slices = 0
            \<or> u_clipDist / elem2 u_slices = 0 then None
         else
           (let clusterX = glsl_int (elem0 viewPos + (elem0 u_slices * halfXLen) / (2.0 * halfXLen));
                clusterY = glsl_int (elem1 viewPos + (elem1 u_slices * halfYLen) / (2.0 * halfYLen));
                clusterZ = glsl_int (elem2 viewPos / (u_clipDist / elem2 u_slices))
            in Some (clusterX + clusterY * glsl_int (elem0 u_slices)
                     + clusterZ * glsl_int (elem0 u_slices) * glsl_int (elem1 u_slices))))"

section \<open>Vocabulary of the properties\<close>

text \<open>
  The cells a loop nest visits, innermost index first: \<open>x\<close> runs fastest, then \<open>y\<close>,
  then \<open>z\<close>.
\<close>

definition gridCells :: "int list \<Rightarrow> int list \<Rightarrow> int list \<Rightarrow> (int \<times> int \<times> int) list" where
  "gridCells xs ys zs = concat (map (\<lambda>z. concat (map (\<lambda>y. map (\<lambda>x. (x, y, z)) xs) ys)) zs)"

text \<open>The count slots the reset loop writes, and the clusters the loop of one light visits.\<close>

definition countSlots :: "renderer \<Rightarrow> int list" where
  "countSlots r = map (\<lambda>(x, y, z). bufferIndex (clusterTexture r) (clusterIndex1D r x y z) 0)
     (gridCells (forRange (IFin 0) (IFin (xSlices r))) (forRange (IFin 0) (IFin (ySlices r)))
        (forRange (IFin 0) (IFin (zSlices r))))"

definition visitedClusters :: "renderer \<Rightarrow> clusterRange \<Rightarrow> int list" where
  "visitedClusters r rg = map (\<lambda>(x, y, z). clusterIndex1D r x y z)
     (gridCells (forRange (xMin rg) (xMax rg)) (forRange (yMin rg) (yMax rg))
        (forRange (zMin rg) (zMax rg)))"

text \<open>
  A renderer as the constructor leaves it and updateClusters keeps it: 126 pixels of four
  numbers per cluster, so the record of cluster \<open>c\<close> starts at \<open>c * 504\<close>.
\<close>

definition rendererOK :: "renderer \<Rightarrow> bool" where
  "rendererOK r \<longleftrightarrow>
     pixelsPerElement (clusterTexture r) = 126 \<and> elementSize r = 126
     \<and> elementCount r = xSlices r * ySlices r * zSlices r
     \<and> int (length (buffer (clusterTexture r))) = elementCount r * elementSize r * 4"

text \<open>
  One axis of a cluster range is well formed when both ends are NaN, or both are
  integers with \<open>min \<le> max\<close> inside \<open>[0, n]\<close> (or both equal to a negative \<open>n\<close>).
\<close>

definition axisRangeOK :: "int \<Rightarrow> jsint \<Rightarrow> jsint \<Rightarrow> bool" where
  "axisRangeOK n lo hi \<longleftrightarrow>
     (lo = INaN \<and> hi = INaN)
     \<or> (\<exists>a b. lo = IFin a \<and> hi = IFin b \<and> a \<le> b \<and> ((0 \<le> a \<and> b \<le> n) \<or> (a = n \<and> b = n)))"

definition rangeInGrid :: "renderer \<Rightarrow> clusterRange \<Rightarrow> bool" where
  "rangeInGrid r rg \<longleftrightarrow>
     axisRangeOK (xSlices r) (xMin rg) (xMax rg) \<and> axisRangeOK (ySlices r) (yMin rg) (yMax rg)
     \<and> axisRangeOK (zSlices r) (zMin rg) (zMax rg)"

text \<open>
  The record of cluster \<open>c\<close> holds the list \<open>ovs\<close> cut at the capacity: its count, and
  then its first 500 entries in order.
\<close>

definition clusterHolds :: "nat list \<Rightarrow> int \<Rightarrow> nat list \<Rightarrow> bool" where
  "clusterHolds buf c ovs \<longleftrightarrow>
     bufRead buf (c * 504) = Some (min 500 (length ovs))
     \<and> (\<forall>k < min 500 (length ovs). bufRead buf (c * 504 + 1 + int k) = Some (ovs ! k))"

text \<open>The lights of a scene whose cluster range contains the cluster \<open>(x, y, z)\<close>, in scene order.\<close>

definition overlappingLights ::
  "arith \<Rightarrow> renderer \<Rightarrow> camera \<Rightarrow> mat4 \<Rightarrow> light list \<Rightarrow> int \<Rightarrow> int \<Rightarrow> int \<Rightarrow> nat list" where
  "overlappingLights fp r cam viewMatrix ls x y z =
     filter (\<lambda>i. inClusterRange (lightClusterRange fp r cam viewMatrix (ls ! i)) x y z)
       [0..<length ls]"

text \<open>Inputs of the examples: a 4x4x4 grid, a camera and the identity view matrix.\<close>

definition grid444 :: renderer where
  "grid444 = \<lparr>clusterTexture = \<lparr>pixelsPerElement = 126, buffer = replicate 32256 0\<rparr>,
      xSlices = 4, ySlices = 4, zSlices = 4, elementCount = 64, elementSize = 126\<rparr>"

definition camera90 :: camera where
  "camera90 = \<lparr>near = 1, far = 5, fov = 90, aspect = 1\<rparr>"

definition mat4_identity :: mat4 where
  "mat4_identity i = (if i = 0 \<or> i = 5 \<or> i = 10 \<or> i = 15 then 1 else 0)"

definition light_2_5 :: light where
  "light_2_5 = \<lparr>position = (0, 0, - 2.5), radius = 1\<rparr>"

definition light_outside :: light where
  "light_outside = \<lparr>position = (1.75, 0.5, - 1.5), radius = 0\<rparr>"

definition light_far_right :: light where
  "light_far_right = \<lparr>position = (10, 0, - 9), radius = 1\<rparr>"

definition camera_near_eq_far :: camera where
  "camera_near_eq_far = \<lparr>near = 1, far = 1, fov = 90, aspect = 1\<rparr>"

definition light_at_fragment :: light where
  "light_at_fragment = \<lparr>position = (0.25, 0.25, - 2.5), radius = 0\<rparr>"

definition light_small :: light where
  "light_small = \<lparr>position = (0, 0, - 2.75), radius = 0.125\<rparr>"

definition light_grown :: light where
  "light_grown = \<lparr>position = (0, 0, - 2.75), radius = 0.25\<rparr>"

text \<open>
  Further inputs of the examples: a view matrix that moves the scene 1.5 away from the
  camera, a light in front of it, the range of the single cell \<open>(1, 1, 2)\<close>, cameras with
  a field of view of 0 and of -90 degrees, a light around the camera, and a light of
  negative radius.
\<close>

definition mat4_camera_back :: mat4 where
  "mat4_camera_back i = (if i = 0 \<or> i = 5 \<or> i = 10 \<or> i = 15 then 1 else if i = 14 then - 1.5 else 0)"

definition light_near :: light where
  "light_near = \<lparr>position = (0, 0, - 1), radius = 0.5\<rparr>"

definition cell_1_1_2 :: clusterRange where
  "cell_1_1_2 = \<lparr>xMin = IFin 1, xMax = IFin 2, yMin = IFin 1, yMax = IFin 2,
                   zMin = IFin 2, zMax = IFin 3\<rparr>"

definition camera_fov0 :: camera where
  "camera_fov0 = \<lparr>near = 1, far = 5, fov = 0, aspect = 1\<rparr>"

definition camera_fov_neg :: camera where
  "camera_fov_neg = \<lparr>near = 1, far = 5, fov = - 90, aspect = 1\<rparr>"

definition light_around_camera :: light where
  "light_around_camera = \<lparr>position = (0, 0, 0), radius = 1\<rparr>"

definition light_negative_radius :: light where
  "light_negative_radius = \<lparr>position = (0, 0, - 2.5), radius = - 1\<rparr>"

text \<open>
  A rounding of relative error at most \<open>u\<close>: the operation on \<open>x\<close> returns the finite
  number \<open>y\<close>, within \<open>u * |x|\<close> of \<open>x\<close>. For the doubles \<open>u\<close> is \<open>2^-53\<close>, outside
  overflow and underflow. The quotient \<open>(n * h) / (2 * h)\<close> that base.js adds to the
  view-space coordinate is \<open>q\<close> when its three operations round in this way.
\<close>

definition roundsTo :: "real \<Rightarrow> arith \<Rightarrow> real \<Rightarrow> real \<Rightarrow> bool" where
  "roundsTo u fp x y \<longleftrightarrow> rnd fp x = Fin y \<and> \<bar>y - x\<bar> \<le> u * \<bar>x\<bar>"

definition offsetQuotient :: "real \<Rightarrow> arith \<Rightarrow> real \<Rightarrow> real \<Rightarrow> real \<Rightarrow> bool" where
  "offsetQuotient u fp n h q \<longleftrightarrow>
     (\<exists>a b. roundsTo u fp (n * h) a \<and> roundsTo u fp (2.0 * h) b \<and> roundsTo u fp (a / b) q)"

text \<open>
  A rounding that keeps the sign, as every IEEE rounding does: a positive number is
  never rounded to a negative one, nor a negative number to a positive one.
\<close>

definition signPreserving :: "arith \<Rightarrow> bool" where
  "signPreserving fp \<longleftrightarrow>
     (\<forall>x. (0 < x \<longrightarrow> round64 fp x = PosInf \<or> (\<exists>y. round64 fp x = Fin y \<and> 0 \<le> y))
        \<and> (x < 0 \<longrightarrow> round64 fp x = NegInf \<or> (\<exists>y. round64 fp x = Fin y \<and> y \<le> 0)))"

definition nonPositive :: "jsnum \<Rightarrow> bool" where
  "nonPositive v \<longleftrightarrow> v = NegInf \<or> (\<exists>y. v = Fin y \<and> y \<le> 0)"

section \<open>The 1D cluster index\<close>

lemma idx2_bounds:
  fixes x y nx ny :: int
  assumes "0 \<le> x" "x < nx" "0 \<le> y" "y < ny"
  shows "0 \<le> x + y * nx" "x + y * nx < nx * ny"
proof -
  have nx: "0 < nx" using assms by linarith
  show "0 \<le> x + y * nx" using assms nx by simp
  have "y * nx \<le> (ny - 1) * nx" using assms nx by (intro mult_right_mono) auto
  then show "x + y * nx < nx * ny" using assms by (simp add: algebra_simps)
qed

lemma idx_split:
  fixes a b n :: int
  assumes "0 \<le> a" "a < n" "0 \<le> a'" "a' < n" "a + b * n = a' + b' * n"
  shows "a = a' \<and> b = b'"
proof -
  have "a = (a + b * n) mod n" using assms(1,2) by simp
  also have "\<dots> = (a' + b' * n) mod n" using assms(5) by simp
  also have "\<dots> = a'" using assms(3,4) by simp
  finally have a: "a = a'" .
  have "b = (a + b * n) div n" using assms(1,2) by simp
  also have "\<dots> = (a' + b' * n) div n" using assms(5) by simp
  also have "\<dots> = b'" using assms(3,4) by simp
  finally have "b = b'" .
  with a show ?thesis by simp
qed

lemma clusterIndex1D_inj:
  assumes "0 \<le> x \<and> x < xSlices r \<and> 0 \<le> y \<and> y < ySlices r \<and> 0 \<le> z \<and> z < zSlices r"
    and "0 \<le> x' \<and> x' < xSlices r \<and> 0 \<le> y' \<and> y' < ySlices r \<and> 0 \<le> z' \<and> z' < zSlices r"
    and "clusterIndex1D r x' y' z' = clusterIndex1D r x y z"
  shows "x' = x \<and> y' = y \<and> z' = z"
proof -
  let ?nx = "xSlices r" and ?ny = "ySlices r"
  have w: "0 \<le> x + y * ?nx" "x + y * ?nx < ?nx * ?ny"
    using idx2_bounds[of x ?nx y ?ny] assms(1) by auto
  have w': "0 \<le> x' + y' * ?nx" "x' + y' * ?nx < ?nx * ?ny"
    using idx2_bounds[of x' ?nx y' ?ny] assms(2) by auto
  have "(x' + y' * ?nx) + z' * (?nx * ?ny) = (x + y * ?nx) + z * (?nx * ?ny)"
    using assms(3) by (simp add: clusterIndex1D_def mult.assoc)
  from idx_split[OF w' w this] have 1: "x' + y' * ?nx = x + y * ?nx" and 2: "z' = z" by auto
  have "x' = x \<and> y' = y" using idx_split[of x' ?nx x y' y] assms(1,2) 1 by blast
  with 2 show ?thesis by simp
qed

lemma clusterIndex1D_bounds:
  assumes "0 \<le> x \<and> x < xSlices r \<and> 0 \<le> y \<and> y < ySlices r \<and> 0 \<le> z \<and> z < zSlices r"
  shows "0 \<le> clusterIndex1D r x y z"
    and "clusterIndex1D r x y z < xSlices r * ySlices r * zSlices r"
proof -
  let ?nx = "xSlices r" and ?ny = "ySlices r" and ?nz = "zSlices r"
  have w: "0 \<le> x + y * ?nx" "x + y * ?nx < ?nx * ?ny"
    using idx2_bounds[of x ?nx y ?ny] assms by auto
  have b: "0 \<le> (x + y * ?nx) + z * (?nx * ?ny)" "(x + y * ?nx) + z * (?nx * ?ny) < (?nx * ?ny) * ?nz"
    using idx2_bounds[OF w, of z ?nz] assms by auto
  show "0 \<le> clusterIndex1D r x y z" using b(1) by (simp add: clusterIndex1D_def mult.assoc)
  show "clusterIndex1D r x y z < ?nx * ?ny * ?nz" using b(2) by (simp add: clusterIndex1D_def mult.assoc)
qed

section \<open>Buffer reads and writes\<close>

lemma length_bufWrite [simp]: "length (bufWrite buf k v) = length buf"
  by (simp add: bufWrite_def)

lemma bufRead_bufWrite:
  "bufRead (bufWrite buf k v) j =
     (if j = k \<and> 0 \<le> k \<and> k < int (length buf) then Some v else bufRead buf j)"
  by (auto simp: bufRead_def bufWrite_def nat_eq_iff)

lemma buf_eqI:
  assumes "length a = length b" and "\<And>k. bufRead a k = bufRead b k"
  shows "a = b"
proof (rule nth_equalityI)
  show "length a = length b" by fact
  fix i assume i: "i < length a"
  from assms(2)[of "int i"] i assms(1) show "a ! i = b ! i"
    by (simp add: bufRead_def)
qed

lemma fold_nested:
  "fold (\<lambda>z b. fold (\<lambda>y b. fold (\<lambda>x b. g x y z b) xs b) ys b) zs buf
   = fold (\<lambda>(x, y, z) b. g x y z b) (gridCells xs ys zs) buf"
proof -
  have inner: "fold (\<lambda>x b. g x y z b) xs b = fold (\<lambda>(x, y, z) b. g x y z b) (map (\<lambda>x. (x, y, z)) xs) b"
    for y z b by (simp add: fold_map comp_def)
  have mid: "fold (\<lambda>y b. fold (\<lambda>x b. g x y z b) xs b) ys b
      = fold (\<lambda>(x, y, z) b. g x y z b) (concat (map (\<lambda>y. map (\<lambda>x. (x, y, z)) xs) ys)) b"
    for z b by (induction ys arbitrary: b) (simp_all add: inner)
  show ?thesis unfolding gridCells_def
    by (induction zs arbitrary: buf) (simp_all add: mid)
qed

lemma set_gridCells: "set (gridCells xs ys zs) = {(x, y, z). x \<in> set xs \<and> y \<in> set ys \<and> z \<in> set zs}"
  by (auto simp: gridCells_def)

lemma distinct_gridCells:
  assumes "distinct xs" "distinct ys" "distinct zs"
  shows "distinct (gridCells xs ys zs)"
proof -
  have row: "distinct (map (\<lambda>x. (x, y, z)) xs)" for y z
    using assms(1) by (simp add: distinct_map inj_on_def)
  have plane: "distinct (concat (map (\<lambda>y. map (\<lambda>x. (x, y, z)) xs) ys))" for z
    using assms(2) row by (induction ys) auto
  show ?thesis unfolding gridCells_def
    using assms(3) plane by (induction zs) auto
qed

lemma length_fold_write [simp]: "length (fold (\<lambda>k b. bufWrite b k v) ks buf) = length buf"
  by (induction ks arbitrary: buf) simp_all

lemma bufRead_fold_write:
  "bufRead (fold (\<lambda>k b. bufWrite b k v) ks buf) j =
     (if j \<in> set ks \<and> 0 \<le> j \<and> j < int (length buf) then Some v else bufRead buf j)"
proof (induction ks arbitrary: buf)
  case Nil
  then show ?case by simp
next
  case (Cons k ks)
  show ?case
    by (simp add: Cons.IH bufRead_bufWrite) (auto simp: bufRead_def)
qed

lemma resetCounts_fold: "resetCounts r buf = fold (\<lambda>k b. bufWrite b k 0) (countSlots r) buf"
  unfolding resetCounts_def countSlots_def fold_nested
  by (simp add: fold_map comp_def case_prod_unfold)

lemma length_resetCounts [simp]: "length (resetCounts r buf) = length buf"
  by (simp add: resetCounts_fold)

lemma bufRead_resetCounts:
  "bufRead (resetCounts r buf) j =
     (if j \<in> set (countSlots r) \<and> 0 \<le> j \<and> j < int (length buf) then Some 0 else bufRead buf j)"
  by (simp add: resetCounts_fold bufRead_fold_write)

lemma resetCounts_idem: "resetCounts r (resetCounts r buf) = resetCounts r buf"
  by (rule buf_eqI) (simp_all add: bufRead_resetCounts)

section \<open>Cluster ranges stay in the grid\<close>

lemma clampClusterIndex_cases:
  "clampClusterIndex v (IFin 0) (IFin n) = INaN
   \<or> (\<exists>k. clampClusterIndex v (IFin 0) (IFin n) = IFin k \<and> k \<le> n \<and> (0 \<le> k \<or> k = n))"
  by (cases v) (auto simp: clampClusterIndex_def)

lemma swap_axisRangeOK:
  assumes "a = INaN \<or> (\<exists>k. a = IFin k \<and> k \<le> n \<and> (0 \<le> k \<or> k = n))"
    and "b = INaN \<or> (\<exists>k. b = IFin k \<and> k \<le> n \<and> (0 \<le> k \<or> k = n))"
  shows "axisRangeOK n (Math_min a b) (Math_max a b)"
  using assms by (cases a; cases b) (auto simp: axisRangeOK_def)

lemma clamp_swap_axisRangeOK:
  "axisRangeOK n
     (Math_min (clampClusterIndex v (IFin 0) (IFin n)) (clampClusterIndex w (IFin 0) (IFin n)))
     (Math_max (clampClusterIndex v (IFin 0) (IFin n)) (clampClusterIndex w (IFin 0) (IFin n)))"
  by (rule swap_axisRangeOK) (rule clampClusterIndex_cases)+

lemma lightClusterRange_axes:
  "axisRangeOK (xSlices r) (xMin (lightClusterRange fp r cam vm l)) (xMax (lightClusterRange fp r cam vm l))"
  "axisRangeOK (ySlices r) (yMin (lightClusterRange fp r cam vm l)) (yMax (lightClusterRange fp r cam vm l))"
  "axisRangeOK (zSlices r) (zMin (lightClusterRange fp r cam vm l)) (zMax (lightClusterRange fp r cam vm l))"
  by (simp_all add: lightClusterRange_def Let_def clamp_swap_axisRangeOK)

lemma forRange_axisRangeOK:
  assumes "axisRangeOK n lo hi" "x \<in> set (forRange lo hi)"
  shows "0 \<le> x \<and> x < n"
  using assms by (auto simp: axisRangeOK_def)

lemma distinct_forRange [simp]: "distinct (forRange lo hi)"
  by (cases lo; cases hi) simp_all

lemma set_forRange0: "set (forRange (IFin 0) (IFin n)) = {x. 0 \<le> x \<and> x < n}"
  by auto

lemma forRange_empty:
  "lo = INaN \<or> hi = INaN \<or> lo = hi \<Longrightarrow> forRange lo hi = []"
  by (cases lo; cases hi) auto

section \<open>Adding a light to a cluster\<close>

lemma slot_eq:
  assumes "pixelsPerElement (clusterTexture r) = 126"
  shows "bufferIndex (clusterTexture r) c (pixelNum k) + pixelComponent k = c * 504 + int k"
proof -
  have "int (k div 4) * 4 + int (k mod 4) = int k"
    using div_mult_mod_eq[of k 4] by (metis of_nat_add of_nat_mult of_nat_numeral)
  then show ?thesis using assms by (simp add: bufferIndex_def pixelNum_def pixelComponent_def)
qed

lemma count_slot_eq:
  assumes "pixelsPerElement (clusterTexture r) = 126"
  shows "bufferIndex (clusterTexture r) c 0 = c * 504"
  using assms by (simp add: bufferIndex_def)

lemma addLight_eq:
  assumes "pixelsPerElement (clusterTexture r) = 126"
  shows "addLight r buf c i =
     (case bufRead buf (c * 504) of
        None \<Rightarrow> buf
      | Some cnt \<Rightarrow>
          if cnt < 500 then bufWrite (bufWrite buf (c * 504) (cnt + 1)) (c * 504 + int (cnt + 1)) i
          else buf)"
proof (cases "bufRead buf (c * 504)")
  case None
  then show ?thesis by (simp add: addLight_def count_slot_eq[OF assms])
next
  case (Some cnt)
  then have rng: "0 \<le> c * 504" "c * 504 < int (length buf)"
    by (auto simp: bufRead_def split: if_splits)
  show ?thesis using Some rng
    by (simp add: addLight_def count_slot_eq[OF assms] slot_eq[OF assms] bufRead_bufWrite
        MAX_LIGHTS_PER_CLUSTER_def Let_def)
qed

lemma length_addLight [simp]: "length (addLight r buf c i) = length buf"
  by (simp add: addLight_def Let_def split: option.splits)

lemma addLight_other:
  assumes pe: "pixelsPerElement (clusterTexture r) = 126"
    and ne: "c' \<noteq> c" and k: "0 \<le> k" "k < 504"
  shows "bufRead (addLight r buf c' i) (c * 504 + k) = bufRead buf (c * 504 + k)"
proof (cases "bufRead buf (c' * 504)")
  case None
  then show ?thesis by (simp add: addLight_eq[OF pe])
next
  case (Some cnt)
  show ?thesis
  proof (cases "cnt < 500")
    case True
    have sep: "c * 504 + k \<noteq> c' * 504 + j" if "0 \<le> j" "j < 504" for j :: int
    proof (cases "c < c'")
      case True
      then show ?thesis using k that by linarith
    next
      case False
      then have "c' < c" using ne by simp
      then show ?thesis using k that by linarith
    qed
    have 1: "c * 504 + k \<noteq> c' * 504" using sep[of 0] by simp
    have 2: "c * 504 + k \<noteq> c' * 504 + int (cnt + 1)" using sep[of "int (cnt + 1)"] True by simp
    show ?thesis using Some True 1 2 by (simp add: addLight_eq[OF pe] bufRead_bufWrite)
  next
    case False
    then show ?thesis using Some by (simp add: addLight_eq[OF pe])
  qed
qed

lemma addLight_other_holds:
  assumes pe: "pixelsPerElement (clusterTexture r) = 126" and ne: "c' \<noteq> c"
  shows "clusterHolds (addLight r buf c' i) c ovs = clusterHolds buf c ovs"
proof -
  have 0: "bufRead (addLight r buf c' i) (c * 504) = bufRead buf (c * 504)"
    using addLight_other[OF pe ne, of 0 buf i] by simp
  have k: "bufRead (addLight r buf c' i) (c * 504 + 1 + int k) = bufRead buf (c * 504 + 1 + int k)"
    if "k < min 500 (length ovs)" for k
    using addLight_other[OF pe ne, of "1 + int k" buf i] that by (simp add: add.assoc)
  show ?thesis unfolding clusterHolds_def using 0 k by auto
qed

lemma addLight_same_holds:
  assumes pe: "pixelsPerElement (clusterTexture r) = 126"
    and rng: "0 \<le> c" "c * 504 + 500 < int (length buf)"
    and h: "clusterHolds buf c ovs"
  shows "clusterHolds (addLight r buf c i) c (ovs @ [i])"
proof (cases "length ovs < 500")
  case True
  let ?n = "length ovs"
  have cnt: "bufRead buf (c * 504) = Some ?n" using h True by (simp add: clusterHolds_def)
  have eq: "addLight r buf c i = bufWrite (bufWrite buf (c * 504) (?n + 1)) (c * 504 + int (?n + 1)) i"
    using cnt True by (simp add: addLight_eq[OF pe])
  have r0: "0 \<le> c * 504" "c * 504 < int (length buf)" using rng by auto
  have r1: "0 \<le> c * 504 + int (?n + 1)" "c * 504 + int (?n + 1) < int (length buf)"
    using rng True by auto
  have c0: "bufRead (addLight r buf c i) (c * 504) = Some (?n + 1)"
    using r0 r1 by (simp add: eq bufRead_bufWrite)
  have ck: "bufRead (addLight r buf c i) (c * 504 + 1 + int k) = Some ((ovs @ [i]) ! k)"
    if "k < ?n + 1" for k
  proof (cases "k = ?n")
    case True
    then show ?thesis using r0 r1 by (simp add: eq bufRead_bufWrite)
  next
    case False
    then have kl: "k < ?n" using that by simp
    then have "bufRead buf (c * 504 + 1 + int k) = Some (ovs ! k)"
      using h \<open>?n < 500\<close> by (simp add: clusterHolds_def)
    then show ?thesis using kl by (simp add: eq bufRead_bufWrite nth_append)
  qed
  show ?thesis unfolding clusterHolds_def using c0 ck True by simp
next
  case False
  then have cnt: "bufRead buf (c * 504) = Some 500" using h by (simp add: clusterHolds_def)
  then have eq: "addLight r buf c i = buf" by (simp add: addLight_eq[OF pe])
  show ?thesis using h False unfolding clusterHolds_def eq by (auto simp: nth_append)
qed

lemma length_fold_addLight [simp]:
  "length (fold (\<lambda>c b. addLight r b c i) cs buf) = length buf"
  by (induction cs arbitrary: buf) simp_all

lemma fold_addLight_other:
  assumes pe: "pixelsPerElement (clusterTexture r) = 126" and "c \<notin> set cs"
  shows "clusterHolds (fold (\<lambda>c' b. addLight r b c' i) cs buf) c ovs = clusterHolds buf c ovs"
  using assms(2)
proof (induction cs arbitrary: buf)
  case Nil
  then show ?case by simp
next
  case (Cons a cs)
  then show ?case using addLight_other_holds[OF pe, of a c] by auto
qed

lemma fold_addLight_same:
  assumes pe: "pixelsPerElement (clusterTexture r) = 126"
    and "c \<in> set cs" "distinct cs"
    and rng: "0 \<le> c" "c * 504 + 500 < int (length buf)"
    and h: "clusterHolds buf c ovs"
  shows "clusterHolds (fold (\<lambda>c' b. addLight r b c' i) cs buf) c (ovs @ [i])"
  using assms(2,3) rng(2) h
proof (induction cs arbitrary: buf)
  case Nil
  then show ?case by simp
next
  case (Cons a cs)
  show ?case
  proof (cases "a = c")
    case True
    then have "c \<notin> set cs" using Cons.prems by simp
    moreover have "clusterHolds (addLight r buf c i) c (ovs @ [i])"
      using addLight_same_holds[OF pe rng(1)] Cons.prems by blast
    ultimately show ?thesis using True fold_addLight_other[OF pe] by simp
  next
    case False
    then have "c \<in> set cs" "distinct cs" using Cons.prems by auto
    moreover have "clusterHolds (addLight r buf a i) c ovs"
      using addLight_other_holds[OF pe False] Cons.prems by simp
    moreover have "c * 504 + 500 < int (length (addLight r buf a i))" using Cons.prems by simp
    ultimately show ?thesis using Cons.IH by simp
  qed
qed

section \<open>Population\<close>

lemma lightClusterRange_inGrid: "rangeInGrid r (lightClusterRange fp r cam vm l)"
  by (simp add: rangeInGrid_def lightClusterRange_axes)

lemma populateLight_fold:
  "populateLight r rg i buf = fold (\<lambda>c b. addLight r b c i) (visitedClusters r rg) buf"
  unfolding populateLight_def visitedClusters_def fold_nested
  by (simp add: fold_map comp_def case_prod_unfold)

lemma length_populateLight [simp]: "length (populateLight r rg i buf) = length buf"
  by (simp add: populateLight_fold)

lemma inClusterRange_bounds:
  assumes "rangeInGrid r rg" "inClusterRange rg x y z"
  shows "0 \<le> x \<and> x < xSlices r \<and> 0 \<le> y \<and> y < ySlices r \<and> 0 \<le> z \<and> z < zSlices r"
  using assms forRange_axisRangeOK unfolding rangeInGrid_def inClusterRange_def by blast

lemma distinct_visitedClusters:
  assumes "rangeInGrid r rg"
  shows "distinct (visitedClusters r rg)"
proof -
  let ?cells = "gridCells (forRange (xMin rg) (xMax rg)) (forRange (yMin rg) (yMax rg))
          (forRange (zMin rg) (zMax rg))"
  have d: "distinct ?cells" by (simp add: distinct_gridCells)
  have "inj_on (\<lambda>(x, y, z). clusterIndex1D r x y z) (set ?cells)"
  proof (rule inj_onI)
    fix p q
    assume a: "p \<in> set ?cells" and b: "q \<in> set ?cells"
      and e: "(case p of (x, y, z) \<Rightarrow> clusterIndex1D r x y z)
               = (case q of (x, y, z) \<Rightarrow> clusterIndex1D r x y z)"
    obtain x y z where p: "p = (x, y, z)" by (cases p) auto
    obtain x' y' z' where q: "q = (x', y', z')" by (cases q) auto
    have "inClusterRange rg x y z" "inClusterRange rg x' y' z'"
      using a b p q by (simp_all add: set_gridCells inClusterRange_def)
    then have "x = x' \<and> y = y' \<and> z = z'"
      using clusterIndex1D_inj[of x' r y' z' x y z] inClusterRange_bounds[OF assms] e p q
      by auto
    then show "p = q" using p q by simp
  qed
  with d show ?thesis unfolding visitedClusters_def by (simp add: distinct_map)
qed

lemma visitedClusters_iff:
  assumes "rangeInGrid r rg"
    and "0 \<le> x \<and> x < xSlices r \<and> 0 \<le> y \<and> y < ySlices r \<and> 0 \<le> z \<and> z < zSlices r"
  shows "clusterIndex1D r x y z \<in> set (visitedClusters r rg) \<longleftrightarrow> inClusterRange rg x y z"
proof
  assume "clusterIndex1D r x y z \<in> set (visitedClusters r rg)"
  then obtain x' y' z' where in': "inClusterRange rg x' y' z'"
    and e: "clusterIndex1D r x y z = clusterIndex1D r x' y' z'"
    by (auto simp: visitedClusters_def set_gridCells inClusterRange_def)
  have "x = x' \<and> y = y' \<and> z = z'"
    using clusterIndex1D_inj[of x' r y' z' x y z] inClusterRange_bounds[OF assms(1) in'] assms(2) e
    by blast
  then show "inClusterRange rg x y z" using in' by simp
next
  assume "inClusterRange rg x y z"
  then show "clusterIndex1D r x y z \<in> set (visitedClusters r rg)"
    by (force simp: visitedClusters_def set_gridCells inClusterRange_def)
qed

lemma populateLight_holds:
  assumes pe: "pixelsPerElement (clusterTexture r) = 126"
    and rg: "rangeInGrid r rg"
    and b: "0 \<le> x \<and> x < xSlices r \<and> 0 \<le> y \<and> y < ySlices r \<and> 0 \<le> z \<and> z < zSlices r"
    and len: "clusterIndex1D r x y z * 504 + 500 < int (length buf)"
    and h: "clusterHolds buf (clusterIndex1D r x y z) ovs"
  shows "clusterHolds (populateLight r rg i buf) (clusterIndex1D r x y z)
           (if inClusterRange rg x y z then ovs @ [i] else ovs)"
proof (cases "inClusterRange rg x y z")
  case True
  then have "clusterIndex1D r x y z \<in> set (visitedClusters r rg)"
    using visitedClusters_iff[OF rg b] by simp
  then show ?thesis
    using True fold_addLight_same[OF pe _ distinct_visitedClusters[OF rg] _ len h]
      clusterIndex1D_bounds(1)[OF b]
    by (simp add: populateLight_fold)
next
  case False
  then have "clusterIndex1D r x y z \<notin> set (visitedClusters r rg)"
    using visitedClusters_iff[OF rg b] by simp
  then show ?thesis using False fold_addLight_other[OF pe] h by (simp add: populateLight_fold)
qed

lemma populate_steps_holds:
  assumes pe: "pixelsPerElement (clusterTexture r) = 126"
    and b: "0 \<le> x \<and> x < xSlices r \<and> 0 \<le> y \<and> y < ySlices r \<and> 0 \<le> z \<and> z < zSlices r"
    and len: "clusterIndex1D r x y z * 504 + 500 < int (length buf)"
    and h: "clusterHolds buf (clusterIndex1D r x y z) []"
  shows "length (fold (\<lambda>i b. populateLight r (lightClusterRange fp r cam vm (ls ! i)) i b) [0..<n] buf)
           = length buf
       \<and> clusterHolds
           (fold (\<lambda>i b. populateLight r (lightClusterRange fp r cam vm (ls ! i)) i b) [0..<n] buf)
           (clusterIndex1D r x y z)
           (filter (\<lambda>i. inClusterRange (lightClusterRange fp r cam vm (ls ! i)) x y z) [0..<n])"
proof (induction n)
  case 0
  then show ?case using h by simp
next
  case (Suc n)
  let ?step = "\<lambda>i b. populateLight r (lightClusterRange fp r cam vm (ls ! i)) i b"
  let ?b = "fold ?step [0..<n] buf"
  have len': "clusterIndex1D r x y z * 504 + 500 < int (length ?b)" using Suc len by simp
  have h': "clusterHolds ?b (clusterIndex1D r x y z)
      (filter (\<lambda>i. inClusterRange (lightClusterRange fp r cam vm (ls ! i)) x y z) [0..<n])"
    using Suc by simp
  have "clusterHolds (?step n ?b) (clusterIndex1D r x y z)
      (filter (\<lambda>i. inClusterRange (lightClusterRange fp r cam vm (ls ! i)) x y z) [0..<Suc n])"
    using populateLight_holds[OF pe lightClusterRange_inGrid b len' h', of fp cam vm "ls ! n" n]
    by (simp split: if_splits)
  moreover have "length (?step n ?b) = length buf" using Suc by simp
  ultimately show ?case by simp
qed

lemma populate_holds:
  assumes pe: "pixelsPerElement (clusterTexture r) = 126"
    and b: "0 \<le> x \<and> x < xSlices r \<and> 0 \<le> y \<and> y < ySlices r \<and> 0 \<le> z \<and> z < zSlices r"
    and len: "clusterIndex1D r x y z * 504 + 500 < int (length buf)"
    and h: "clusterHolds buf (clusterIndex1D r x y z) []"
  shows "clusterHolds (populate fp r cam vm ls buf) (clusterIndex1D r x y z)
           (filter (\<lambda>i. inClusterRange (lightClusterRange fp r cam vm (ls ! i)) x y z) [0..<length ls])"
  unfolding populate_def using populate_steps_holds[OF assms] by blast

lemma length_populate [simp]: "length (populate fp r cam vm ls buf) = length buf"
proof -
  have "length (fold (\<lambda>i b. populateLight r (lightClusterRange fp r cam vm (ls ! i)) i b) is buf)
          = length buf" for "is"
    by (induction "is" arbitrary: buf) simp_all
  then show ?thesis by (simp add: populate_def)
qed

lemma count_slot_in_countSlots:
  assumes pe: "pixelsPerElement (clusterTexture r) = 126"
    and b: "0 \<le> x \<and> x < xSlices r \<and> 0 \<le> y \<and> y < ySlices r \<and> 0 \<le> z \<and> z < zSlices r"
  shows "clusterIndex1D r x y z * 504 \<in> set (countSlots r)"
proof -
  have "(x, y, z) \<in> set (gridCells (forRange (IFin 0) (IFin (xSlices r)))
          (forRange (IFin 0) (IFin (ySlices r))) (forRange (IFin 0) (IFin (zSlices r))))"
    using b by (simp add: set_gridCells)
  then have "bufferIndex (clusterTexture r) (clusterIndex1D r x y z) 0 \<in> set (countSlots r)"
    unfolding countSlots_def by force
  then show ?thesis by (simp add: count_slot_eq[OF pe])
qed

lemma cluster_record_in_buffer:
  assumes ok: "rendererOK r"
    and b: "0 \<le> x \<and> x < xSlices r \<and> 0 \<le> y \<and> y < ySlices r \<and> 0 \<le> z \<and> z < zSlices r"
  shows "clusterIndex1D r x y z * 504 + 503 < int (length (buffer (clusterTexture r)))"
proof -
  have "clusterIndex1D r x y z + 1 \<le> xSlices r * ySlices r * zSlices r"
    using clusterIndex1D_bounds(2)[OF b] by simp
  then have "(clusterIndex1D r x y z + 1) * 504 \<le> xSlices r * ySlices r * zSlices r * 504"
    by (rule mult_right_mono) simp
  then show ?thesis using ok by (simp add: rendererOK_def algebra_simps)
qed

lemma updateClusters_record:
  assumes ok: "rendererOK r"
    and b: "0 \<le> x \<and> x < xSlices r \<and> 0 \<le> y \<and> y < ySlices r \<and> 0 \<le> z \<and> z < zSlices r"
  shows "clusterHolds (buffer (clusterTexture (updateClusters fp r cam vm sc))) (clusterIndex1D r x y z)
           (filter (\<lambda>i. inClusterRange (lightClusterRange fp r cam vm (lights sc ! i)) x y z)
              [0..<length (lights sc)])"
proof -
  have pe: "pixelsPerElement (clusterTexture r) = 126" using ok by (simp add: rendererOK_def)
  let ?c = "clusterIndex1D r x y z"
  let ?buf0 = "resetCounts r (buffer (clusterTexture r))"
  have len: "?c * 504 + 500 < int (length ?buf0)"
    using cluster_record_in_buffer[OF ok b] by simp
  have "bufRead ?buf0 (?c * 504) = Some 0"
    using count_slot_in_countSlots[OF pe b] clusterIndex1D_bounds(1)[OF b] len
    by (simp add: bufRead_resetCounts)
  then have "clusterHolds ?buf0 ?c []" by (simp add: clusterHolds_def)
  from populate_holds[OF pe b len this]
  show ?thesis by (simp add: updateClusters_def)
qed

lemma clusterComponent_eq:
  assumes "pixelsPerElement (clusterTexture r) = 126"
  shows "clusterComponent r c k = bufRead (buffer (clusterTexture r)) (c * 504 + int k)"
  by (simp add: clusterComponent_def slot_eq[OF assms])

lemma updateClusters_fields [simp]:
  "xSlices (updateClusters fp r cam vm sc) = xSlices r"
  "ySlices (updateClusters fp r cam vm sc) = ySlices r"
  "zSlices (updateClusters fp r cam vm sc) = zSlices r"
  "elementCount (updateClusters fp r cam vm sc) = elementCount r"
  "elementSize (updateClusters fp r cam vm sc) = elementSize r"
  "pixelsPerElement (clusterTexture (updateClusters fp r cam vm sc)) = pixelsPerElement (clusterTexture r)"
  by (simp_all add: updateClusters_def)

lemma updateClusters_rendererOK: "rendererOK r \<Longrightarrow> rendererOK (updateClusters fp r cam vm sc)"
  by (simp add: rendererOK_def) (simp add: updateClusters_def)

lemma constructor_rendererOK: "BaseRenderer_constructor xs ys zs = Inr r \<Longrightarrow> rendererOK r"
  by (auto simp: BaseRenderer_constructor_def newTextureBuffer_def MAX_LIGHTS_PER_CLUSTER_def
      rendererOK_def Let_def split: if_splits)

section \<open>The example grid\<close>

lemma rendererOK_grid444: "rendererOK grid444"
  by (simp add: rendererOK_def grid444_def)

lemma constructor_grid444: "BaseRenderer_constructor 4 4 4 = Inr grid444"
  by (simp add: BaseRenderer_constructor_def newTextureBuffer_def MAX_LIGHTS_PER_CLUSTER_def
      grid444_def Let_def)

section \<open>The reset loop\<close>

lemma count_slot_in_buffer:
  assumes ok: "rendererOK r"
    and b: "0 \<le> x \<and> x < xSlices r \<and> 0 \<le> y \<and> y < ySlices r \<and> 0 \<le> z \<and> z < zSlices r"
  shows "0 \<le> clusterIndex1D r x y z * 504"
    and "clusterIndex1D r x y z * 504 < int (length (buffer (clusterTexture r)))"
  using cluster_record_in_buffer[OF ok b] clusterIndex1D_bounds(1)[OF b] by simp_all

lemma countSlots_multiple:
  assumes pe: "pixelsPerElement (clusterTexture r) = 126" and "j \<in> set (countSlots r)"
  shows "\<exists>c. j = c * 504"
  using assms(2) unfolding countSlots_def by (auto simp: count_slot_eq[OF pe])

lemma index_slot_not_countSlot:
  assumes pe: "pixelsPerElement (clusterTexture r) = 126" and k: "1 \<le> k" "k \<le> 500"
  shows "c * 504 + int k \<notin> set (countSlots r)"
proof
  assume "c * 504 + int k \<in> set (countSlots r)"
  then obtain c' where e: "c * 504 + int k = c' * 504" using countSlots_multiple[OF pe] by blast
  show False
  proof (cases "c < c'")
    case True
    then show ?thesis using e k by linarith
  next
    case False
    then show ?thesis using e k by linarith
  qed
qed

section \<open>The arithmetic without rounding\<close>

text \<open>
  The examples are evaluated in the arithmetic without rounding. Their coordinates and
  radii are dyadic numbers, and the slice counts of the example grid are powers of two,
  for which \<open>(n * h) / (2 * h)\<close> is \<open>n / 2\<close> in the doubles as well.
\<close>

lemma exact_fields [simp]:
  "round64 exact x = Fin x" "round32 exact x = Fin x"
  "tan64 exact x = (if cos x = 0 then PosInf else Fin (tan x))"
  by (simp_all add: exact_def)

lemma rnd_exact [simp]: "rnd exact x = Fin x"
  by (simp add: rnd_def)

lemma toFloat32_exact: "toFloat32 exact (Fin x) = Fin x"
  by simp

lemma Math_PI_exact [simp]: "Math_PI exact = Fin pi"
  by (simp add: Math_PI_def)

lemma Math_tan_exact_45: "Math_tan exact (Fin (pi / 4)) = Fin 1"
proof -
  have "cos (pi / 4) \<noteq> 0" by (simp add: cos_45)
  then show ?thesis by (simp add: tan_45)
qed

lemma camera90_fields:
  "near camera90 = 1" "far camera90 = 5" "fov camera90 = 90" "aspect camera90 = 1"
  by (simp_all add: camera90_def)

lemma tanFov_camera90: "tanFov exact camera90 = Fin 1"
proof -
  have "0.5 * 90 * (pi / 180.0) = pi / 4" by simp
  then show ?thesis by (simp add: tanFov_def camera90_fields cos_45 tan_45)
qed

lemmas range_defs = xMinRaw_def xMaxRaw_def yMinRaw_def yMaxRaw_def zMinRaw_def zMaxRaw_def
  halfXLenNear_def halfYLenNear_def halfXLenFar_def halfYLenFar_def zNear_def zFar_def zStep_def
  viewBBMin_def viewBBMax_def bbMin_def bbMax_def transformMat4_def matRow_def js_sub_def
  elem0_def elem1_def elem2_def mat4_identity_def clampClusterIndex_def

lemma range_light_2_5:
  "lightClusterRange exact grid444 camera90 mat4_identity light_2_5
   = \<lparr>xMin = IFin 1, xMax = IFin 3, yMin = IFin 1, yMax = IFin 3, zMin = IFin 2, zMax = IFin 3\<rparr>"
  by (simp add: lightClusterRange_def range_defs tanFov_camera90 camera90_fields grid444_def
      light_2_5_def Let_def)

lemma range_light_outside:
  "lightClusterRange exact grid444 camera90 mat4_identity light_outside
   = \<lparr>xMin = IFin 3, xMax = IFin 4, yMin = IFin 2, yMax = IFin 3, zMin = IFin 1, zMax = IFin 2\<rparr>"
  by (simp add: lightClusterRange_def range_defs tanFov_camera90 camera90_fields grid444_def
      light_outside_def Let_def)

lemma roundsTo_exact: "0 \<le> u \<Longrightarrow> roundsTo u exact x x"
  by (simp add: roundsTo_def)

lemma offsetQuotient_exact:
  assumes "0 \<le> u" "h \<noteq> 0"
  shows "offsetQuotient u exact n h (n / 2)"
proof -
  have "n * h / (2 * h) = n / 2" using assms(2) by simp
  then have "roundsTo u exact (n * h / (2.0 * h)) (n / 2)"
    using roundsTo_exact[OF assms(1), of "n / 2"] assms(2) by simp
  then show ?thesis
    unfolding offsetQuotient_def
    using roundsTo_exact[OF assms(1), of "n * h"] roundsTo_exact[OF assms(1), of "2.0 * h"]
    by blast
qed

lemma overlapping_501:
  "overlappingLights exact grid444 camera90 mat4_identity (replicate 501 light_2_5) 1 1 2 = [0..<501]"
proof -
  have "inClusterRange (lightClusterRange exact grid444 camera90 mat4_identity light_2_5) 1 1 2"
    by (simp add: range_light_2_5 inClusterRange_def)
  then have "\<forall>i\<in>set [0..<501].
      inClusterRange (lightClusterRange exact grid444 camera90 mat4_identity (replicate 501 light_2_5 ! i)) 1 1 2"
    by simp
  then show ?thesis unfolding overlappingLights_def by (simp only: filter_True length_replicate)
qed

section \<open>The rounding error of the offset added to the x and y coordinates\<close>

lemma rel_error_factor:
  fixes x y u :: real
  assumes "\<bar>y - x\<bar> \<le> u * \<bar>x\<bar>" and "0 \<le> u"
  obtains d where "y = x * (1 + d)" "\<bar>d\<bar> \<le> u"
proof (cases "x = 0")
  case True
  then have "y = x * (1 + 0)" using assms by simp
  moreover have "\<bar>0::real\<bar> \<le> u" using assms(2) by simp
  ultimately show ?thesis using that by blast
next
  case False
  define d where "d = (y - x) / x"
  have "y = x * (1 + d)" using False by (simp add: d_def field_simps)
  moreover have "\<bar>d\<bar> \<le> u"
  proof -
    have "\<bar>d\<bar> = \<bar>y - x\<bar> / \<bar>x\<bar>" by (simp add: d_def)
    also have "\<dots> \<le> (u * \<bar>x\<bar>) / \<bar>x\<bar>" using assms(1) by (rule divide_right_mono) simp
    also have "\<dots> = u" using False by simp
    finally show ?thesis .
  qed
  ultimately show ?thesis using that by blast
qed

lemma ratio_bound:
  fixes d1 d2 d3 u :: real
  assumes d: "\<bar>d1\<bar> \<le> u" "\<bar>d2\<bar> \<le> u" "\<bar>d3\<bar> \<le> u" and u: "0 \<le> u" "u \<le> 1 / 5"
  shows "\<bar>(1 + d1) * (1 + d3) / (1 + d2) - 1\<bar> \<le> 4 * u"
proof -
  have pos: "0 < 1 + d2" using d(2) u by linarith
  have uu: "u * u \<le> u / 5" using mult_left_mono[OF u(2) u(1)] by simp
  have "\<bar>d1 * d3\<bar> = \<bar>d1\<bar> * \<bar>d3\<bar>" by (rule abs_mult)
  also have "\<dots> \<le> u * u" using d(1,3) by (intro mult_mono) simp_all
  finally have p: "\<bar>d1 * d3\<bar> \<le> u * u" .
  have "\<bar>d1 + d3 + d1 * d3 - d2\<bar> \<le> \<bar>d1\<bar> + \<bar>d3\<bar> + \<bar>d1 * d3\<bar> + \<bar>d2\<bar>" by linarith
  also have "\<dots> \<le> 3 * u + u * u" using d p by linarith
  also have "\<dots> \<le> 4 * u * (1 - u)" using uu by (simp add: algebra_simps)
  also have "\<dots> \<le> 4 * u * (1 + d2)" using d(2) u(1) by (intro mult_left_mono) linarith+
  finally have num: "\<bar>d1 + d3 + d1 * d3 - d2\<bar> \<le> 4 * u * (1 + d2)" .
  have "(1 + d1) * (1 + d3) / (1 + d2) - 1 = (d1 + d3 + d1 * d3 - d2) / (1 + d2)"
    using pos by (simp add: field_simps)
  then have "\<bar>(1 + d1) * (1 + d3) / (1 + d2) - 1\<bar> = \<bar>d1 + d3 + d1 * d3 - d2\<bar> / (1 + d2)"
    using pos by simp
  also have "\<dots> \<le> 4 * u * (1 + d2) / (1 + d2)" using num pos by (intro divide_right_mono) simp_all
  also have "\<dots> = 4 * u" using pos by simp
  finally show ?thesis .
qed

lemma offset_quotient:
  assumes h: "h \<noteq> 0" and u: "0 \<le> u" "u \<le> 1 / 5" and q: "offsetQuotient u fp n h q"
  shows "js_div fp (js_mul fp (Fin n) (Fin h)) (js_mul fp (Fin 2.0) (Fin h)) = Fin q"
    and "\<bar>q - n / 2\<bar> \<le> 4 * u * \<bar>n / 2\<bar>"
proof -
  from q obtain a b where a: "rnd fp (n * h) = Fin a" "\<bar>a - n * h\<bar> \<le> u * \<bar>n * h\<bar>"
    and b: "rnd fp (2 * h) = Fin b" "\<bar>b - 2 * h\<bar> \<le> u * \<bar>2 * h\<bar>"
    and c: "rnd fp (a / b) = Fin q" "\<bar>q - a / b\<bar> \<le> u * \<bar>a / b\<bar>"
    unfolding offsetQuotient_def roundsTo_def by auto
  obtain d1 where d1: "a = n * h * (1 + d1)" "\<bar>d1\<bar> \<le> u" using rel_error_factor[OF a(2) u(1)] by blast
  obtain d2 where d2: "b = 2 * h * (1 + d2)" "\<bar>d2\<bar> \<le> u" using rel_error_factor[OF b(2) u(1)] by blast
  obtain d3 where d3: "q = a / b * (1 + d3)" "\<bar>d3\<bar> \<le> u" using rel_error_factor[OF c(2) u(1)] by blast
  have pos: "0 < 1 + d2" using d2(2) u by linarith
  then have bnz: "b \<noteq> 0" using d2(1) h by simp
  show "js_div fp (js_mul fp (Fin n) (Fin h)) (js_mul fp (Fin 2.0) (Fin h)) = Fin q"
    using a(1) b(1) c(1) bnz by simp
  define e where "e = 1 + d2"
  have e: "e \<noteq> 0" using pos by (simp add: e_def)
  have "n * h * (1 + d1) / (2 * h * e) * (1 + d3) = n / 2 * ((1 + d1) * (1 + d3) / e)"
    using h e by (simp add: field_simps)
  then have "q = n / 2 * ((1 + d1) * (1 + d3) / (1 + d2))"
    unfolding d3(1) d1(1) d2(1) e_def .
  then have "q - n / 2 = n / 2 * ((1 + d1) * (1 + d3) / (1 + d2) - 1)" by (simp add: algebra_simps)
  then have "\<bar>q - n / 2\<bar> = \<bar>n / 2 * ((1 + d1) * (1 + d3) / (1 + d2) - 1)\<bar>" by (rule arg_cong)
  also have "\<dots> = \<bar>n / 2\<bar> * \<bar>(1 + d1) * (1 + d3) / (1 + d2) - 1\<bar>" by (rule abs_mult)
  finally have "\<bar>q - n / 2\<bar> = \<bar>n / 2\<bar> * \<bar>(1 + d1) * (1 + d3) / (1 + d2) - 1\<bar>" .
  also have "\<dots> \<le> \<bar>n / 2\<bar> * (4 * u)"
    using ratio_bound[OF d1(2) d2(2) d3(2) u] by (intro mult_left_mono) simp_all
  finally show "\<bar>q - n / 2\<bar> \<le> 4 * u * \<bar>n / 2\<bar>" by (simp add: mult.commute)
qed

lemma nan_quotient:
  assumes "\<forall>h. v = Fin h \<longrightarrow> h = 0"
  shows "js_div fp (js_mul fp (Fin n) v) (js_mul fp (Fin 2.0) v) = NaN"
proof (cases v)
  case (Fin h)
  then have "h = 0" using assms by simp
  then show ?thesis using Fin by (simp add: rnd_def)
qed (simp_all)

lemma js_add_NaN [simp]: "js_add fp v NaN = NaN"
  by (cases v) simp_all

section \<open>The loops as folds over the cells they visit\<close>

lemma resetCounts_cells:
  "resetCounts r buf =
     fold (\<lambda>(x, y, z) b.
             bufWrite b (bufferIndex (clusterTexture r) (x + y * xSlices r + z * xSlices r * ySlices r) 0) 0)
       (gridCells (forRange (IFin 0) (IFin (xSlices r))) (forRange (IFin 0) (IFin (ySlices r)))
          (forRange (IFin 0) (IFin (zSlices r)))) buf"
  unfolding resetCounts_def fold_nested clusterIndex1D_def ..

lemma populateLight_cells:
  "populateLight r rg i buf =
     fold (\<lambda>(x, y, z) b. addLight r b (x + y * xSlices r + z * xSlices r * ySlices r) i)
       (gridCells (forRange (xMin rg) (xMax rg)) (forRange (yMin rg) (yMax rg))
          (forRange (zMin rg) (zMax rg))) buf"
  unfolding populateLight_def fold_nested clusterIndex1D_def ..

lemma clusterIndex1D_onto:
  assumes d: "0 \<le> xSlices r" "0 \<le> ySlices r" "0 \<le> zSlices r"
    and c: "0 \<le> c" "c < xSlices r * ySlices r * zSlices r"
  shows "\<exists>x y z. 0 \<le> x \<and> x < xSlices r \<and> 0 \<le> y \<and> y < ySlices r \<and> 0 \<le> z \<and> z < zSlices r
           \<and> clusterIndex1D r x y z = c"
proof -
  let ?nx = "xSlices r" and ?ny = "ySlices r" and ?nz = "zSlices r"
  have prod: "0 < ?nx * ?ny * ?nz" using c by linarith
  have nx: "0 < ?nx"
  proof (rule ccontr)
    assume "\<not> 0 < ?nx"
    then have "?nx = 0" using d(1) by simp
    then show False using prod by simp
  qed
  have ny: "0 < ?ny"
  proof (rule ccontr)
    assume "\<not> 0 < ?ny"
    then have "?ny = 0" using d(2) by simp
    then show False using prod by simp
  qed
  have nz: "0 < ?nz"
  proof (rule ccontr)
    assume "\<not> 0 < ?nz"
    then have "?nz = 0" using d(3) by simp
    then show False using prod by simp
  qed
  define x where "x = c mod ?nx"
  define w where "w = c div ?nx"
  define y where "y = w mod ?ny"
  define z where "z = w div ?ny"
  have x: "0 \<le> x" "x < ?nx" using nx by (simp_all add: x_def)
  have y: "0 \<le> y" "y < ?ny" using ny by (simp_all add: y_def)
  have w0: "0 \<le> w" using c(1) nx by (simp add: w_def pos_imp_zdiv_nonneg_iff)
  have z0: "0 \<le> z" using w0 ny by (simp add: z_def pos_imp_zdiv_nonneg_iff)
  have cw: "c = x + w * ?nx" by (simp add: x_def w_def)
  have wz: "w = y + z * ?ny" by (simp add: y_def z_def)
  have "w < ?ny * ?nz"
  proof (rule ccontr)
    assume "\<not> w < ?ny * ?nz"
    then have "?ny * ?nz \<le> w" by simp
    then have "?ny * ?nz * ?nx \<le> w * ?nx" using nx by (intro mult_right_mono) simp_all
    then have "?nx * ?ny * ?nz \<le> c" using cw x(1) by (simp add: algebra_simps)
    then show False using c(2) by simp
  qed
  have z: "z < ?nz"
  proof (rule ccontr)
    assume "\<not> z < ?nz"
    then have "?nz \<le> z" by simp
    then have "?nz * ?ny \<le> z * ?ny" using ny by (intro mult_right_mono) simp_all
    then have "?ny * ?nz \<le> w" using wz y(1) by (simp add: algebra_simps)
    then show False using \<open>w < ?ny * ?nz\<close> by simp
  qed
  have "clusterIndex1D r x y z = c"
    unfolding clusterIndex1D_def cw wz by (simp add: algebra_simps)
  then show ?thesis using x y z z0 by blast
qed

lemma bufWrite_in_range:
  "0 \<le> k \<Longrightarrow> k < int (length buf) \<Longrightarrow> bufWrite buf k v = buf[nat k := v]"
  by (simp add: bufWrite_def)

lemma fold_bufWrite_in_range:
  assumes "\<forall>k\<in>set ks. 0 \<le> k \<and> k < int (length buf)"
  shows "fold (\<lambda>k b. bufWrite b k v) ks buf = fold (\<lambda>k b. b[nat k := v]) ks buf"
  using assms
proof (induction ks arbitrary: buf)
  case Nil
  then show ?case by simp
next
  case (Cons k ks)
  have k: "bufWrite buf k v = buf[nat k := v]" using Cons.prems by (simp add: bufWrite_in_range)
  have "\<forall>j\<in>set ks. 0 \<le> j \<and> j < int (length (buf[nat k := v]))" using Cons.prems by simp
  from Cons.IH[OF this] show ?case by (simp add: k)
qed

lemma countSlots_in_buffer:
  assumes ok: "rendererOK r" and len: "length buf = length (buffer (clusterTexture r))"
    and k: "k \<in> set (countSlots r)"
  shows "0 \<le> k \<and> k < int (length buf)"
proof -
  have pe: "pixelsPerElement (clusterTexture r) = 126" using ok by (simp add: rendererOK_def)
  from k obtain x y z
    where b: "0 \<le> x \<and> x < xSlices r \<and> 0 \<le> y \<and> y < ySlices r \<and> 0 \<le> z \<and> z < zSlices r"
      and e: "k = clusterIndex1D r x y z * 504"
    unfolding countSlots_def by (auto simp: set_gridCells count_slot_eq[OF pe])
  show ?thesis using count_slot_in_buffer[OF ok b] unfolding e len by simp
qed

lemma visitedClusters_in_grid:
  assumes ok: "rendererOK r" and c: "c \<in> set (visitedClusters r (lightClusterRange fp r cam vm l))"
  shows "0 \<le> c \<and> c < elementCount r"
proof -
  from c obtain x y z
    where v: "inClusterRange (lightClusterRange fp r cam vm l) x y z"
      and e: "c = clusterIndex1D r x y z"
    unfolding visitedClusters_def by (auto simp: set_gridCells inClusterRange_def)
  have b: "0 \<le> x \<and> x < xSlices r \<and> 0 \<le> y \<and> y < ySlices r \<and> 0 \<le> z \<and> z < zSlices r"
    by (rule inClusterRange_bounds[OF lightClusterRange_inGrid v])
  show ?thesis using clusterIndex1D_bounds[OF b] ok unfolding e by (simp add: rendererOK_def)
qed

lemma addLight_writes:
  assumes ok: "rendererOK r" and len: "length buf = length (buffer (clusterTexture r))"
    and c: "0 \<le> c \<and> c < elementCount r"
  shows "\<exists>cnt. bufRead buf (bufferIndex (clusterTexture r) c 0) = Some cnt
     \<and> (if cnt < MAX_LIGHTS_PER_CLUSTER then
          cnt + 1 \<le> MAX_LIGHTS_PER_CLUSTER
          \<and> 0 \<le> pixelNum (cnt + 1) \<and> pixelNum (cnt + 1) < elementSize r
          \<and> 0 \<le> bufferIndex (clusterTexture r) c 0
          \<and> bufferIndex (clusterTexture r) c 0 < int (length buf)
          \<and> 0 \<le> bufferIndex (clusterTexture r) c (pixelNum (cnt + 1)) + pixelComponent (cnt + 1)
          \<and> bufferIndex (clusterTexture r) c (pixelNum (cnt + 1)) + pixelComponent (cnt + 1)
              < int (length buf)
          \<and> addLight r buf c i
              = (buf[nat (bufferIndex (clusterTexture r) c 0) := cnt + 1])
                  [nat (bufferIndex (clusterTexture r) c (pixelNum (cnt + 1))
                        + pixelComponent (cnt + 1)) := i]
        else addLight r buf c i = buf)"
proof -
  have pe: "pixelsPerElement (clusterTexture r) = 126" using ok by (simp add: rendererOK_def)
  have es: "elementSize r = 126" using ok by (simp add: rendererOK_def)
  have "(c + 1) * 504 \<le> elementCount r * 504" using c by (intro mult_right_mono) simp_all
  then have top: "c * 504 + 503 < int (length buf)"
    using ok unfolding len by (simp add: rendererOK_def algebra_simps)
  have s0: "0 \<le> c * 504" "c * 504 < int (length buf)" using c top by simp_all
  then obtain cnt where cnt: "bufRead buf (c * 504) = Some cnt" by (simp add: bufRead_def)
  show ?thesis
  proof (cases "cnt < MAX_LIGHTS_PER_CLUSTER")
    case True
    then have n: "cnt + 1 \<le> 500" by (simp add: MAX_LIGHTS_PER_CLUSTER_def)
    have "(cnt + 1) div 4 \<le> 125" using n by simp
    then have p: "0 \<le> pixelNum (cnt + 1)" "pixelNum (cnt + 1) < 126" by (simp_all add: pixelNum_def)
    have s1: "0 \<le> c * 504 + int (cnt + 1)" "c * 504 + int (cnt + 1) < int (length buf)"
      using c top n by simp_all
    have "addLight r buf c i = bufWrite (bufWrite buf (c * 504) (cnt + 1)) (c * 504 + int (cnt + 1)) i"
      using cnt True by (simp add: addLight_eq[OF pe] MAX_LIGHTS_PER_CLUSTER_def)
    also have "\<dots> = (buf[nat (c * 504) := cnt + 1])[nat (c * 504 + int (cnt + 1)) := i]"
      using s0 s1 by (simp add: bufWrite_in_range)
    finally have w: "addLight r buf c i
        = (buf[nat (c * 504) := cnt + 1])[nat (c * 504 + int (cnt + 1)) := i]" .
    show ?thesis
      unfolding slot_eq[OF pe] count_slot_eq[OF pe] es
      using cnt True n p s0 s1 w by (intro exI[of _ cnt]) (simp add: MAX_LIGHTS_PER_CLUSTER_def)
  next
    case False
    then have "addLight r buf c i = buf"
      using cnt by (simp add: addLight_eq[OF pe] MAX_LIGHTS_PER_CLUSTER_def)
    then show ?thesis
      unfolding count_slot_eq[OF pe] using cnt False by (intro exI[of _ cnt]) simp
  qed
qed

section \<open>Degenerate cameras and empty ranges\<close>

lemma js_mul_zero_cases: "js_mul fp (Fin 0) v = NaN \<or> js_mul fp (Fin 0) v = Fin 0"
  by (cases v) (simp_all add: rnd_def)

lemma js_mul_by_zero_cases:
  "t = NaN \<or> t = Fin 0 \<Longrightarrow> js_mul fp v t = NaN \<or> js_mul fp v t = Fin 0"
  by (cases v) (auto simp: rnd_def)

lemma js_mul_of_zero_cases:
  "v = NaN \<or> v = Fin 0 \<Longrightarrow> js_mul fp v (Fin a) = NaN \<or> js_mul fp v (Fin a) = Fin 0"
  by (auto simp: rnd_def)

lemma tanFov_fov0:
  assumes "fov cam = 0"
  shows "tanFov fp cam = NaN \<or> tanFov fp cam = Fin 0"
proof -
  have "js_mul fp (Fin 0.5) (Fin (fov cam)) = Fin 0" using assms by (simp add: rnd_def)
  then have "tanFov fp cam = Math_tan fp (js_mul fp (Fin 0) (js_div fp (Math_PI fp) (Fin 180.0)))"
    by (simp add: tanFov_def)
  then show ?thesis
    using js_mul_zero_cases[of fp "js_div fp (Math_PI fp) (Fin 180.0)"] by auto
qed

lemma half_lengths_fov0:
  assumes "fov cam = 0"
  shows "\<forall>h. halfYLenNear fp cam vm l = Fin h \<longrightarrow> h = 0"
    and "\<forall>h. halfXLenNear fp cam vm l = Fin h \<longrightarrow> h = 0"
    and "\<forall>h. halfYLenFar fp cam vm l = Fin h \<longrightarrow> h = 0"
    and "\<forall>h. halfXLenFar fp cam vm l = Fin h \<longrightarrow> h = 0"
proof -
  have yn: "halfYLenNear fp cam vm l = NaN \<or> halfYLenNear fp cam vm l = Fin 0"
    unfolding halfYLenNear_def by (rule js_mul_by_zero_cases[OF tanFov_fov0[OF assms]])
  have yf: "halfYLenFar fp cam vm l = NaN \<or> halfYLenFar fp cam vm l = Fin 0"
    unfolding halfYLenFar_def by (rule js_mul_by_zero_cases[OF tanFov_fov0[OF assms]])
  have xn: "halfXLenNear fp cam vm l = NaN \<or> halfXLenNear fp cam vm l = Fin 0"
    unfolding halfXLenNear_def by (rule js_mul_of_zero_cases[OF yn])
  have xf: "halfXLenFar fp cam vm l = NaN \<or> halfXLenFar fp cam vm l = Fin 0"
    unfolding halfXLenFar_def by (rule js_mul_of_zero_cases[OF yf])
  show "\<forall>h. halfYLenNear fp cam vm l = Fin h \<longrightarrow> h = 0" using yn by auto
  show "\<forall>h. halfXLenNear fp cam vm l = Fin h \<longrightarrow> h = 0" using xn by auto
  show "\<forall>h. halfYLenFar fp cam vm l = Fin h \<longrightarrow> h = 0" using yf by auto
  show "\<forall>h. halfXLenFar fp cam vm l = Fin h \<longrightarrow> h = 0" using xf by auto
qed

lemma clamp_INaN [simp]: "clampClusterIndex INaN mn mx = INaN"
  by (simp add: clampClusterIndex_def)

lemma Math_max_INaN_right [simp]: "Math_max v INaN = INaN"
  by (cases v) simp_all

lemma Math_min_INaN_right [simp]: "Math_min v INaN = INaN"
  by (cases v) simp_all

lemma xy_range_fov0:
  assumes "fov cam = 0"
  shows "xMin (lightClusterRange fp r cam vm l) = INaN"
    and "xMax (lightClusterRange fp r cam vm l) = INaN"
    and "yMin (lightClusterRange fp r cam vm l) = INaN"
    and "yMax (lightClusterRange fp r cam vm l) = INaN"
proof -
  note h = half_lengths_fov0[OF assms, of fp vm l]
  have raw: "xMinRaw fp r cam vm l = INaN" "xMaxRaw fp r cam vm l = INaN"
    "yMinRaw fp r cam vm l = INaN" "yMaxRaw fp r cam vm l = INaN"
    unfolding xMinRaw_def xMaxRaw_def yMinRaw_def yMaxRaw_def
      nan_quotient[OF h(2)] nan_quotient[OF h(4)] nan_quotient[OF h(1)] nan_quotient[OF h(3)]
    by simp_all
  show "xMin (lightClusterRange fp r cam vm l) = INaN"
    "xMax (lightClusterRange fp r cam vm l) = INaN"
    "yMin (lightClusterRange fp r cam vm l) = INaN"
    "yMax (lightClusterRange fp r cam vm l) = INaN"
    by (simp_all add: lightClusterRange_def Let_def raw)
qed

lemma rnd_nonPositive:
  assumes "signPreserving fp" "x \<le> 0"
  shows "nonPositive (rnd fp x)"
proof (cases "x = 0")
  case True
  then show ?thesis by (simp add: rnd_def nonPositive_def)
next
  case False
  then have "x < 0" using assms(2) by simp
  then show ?thesis using assms(1) False unfolding signPreserving_def nonPositive_def rnd_def
    by auto
qed

lemma clamp_floor_nonPositive:
  assumes "nonPositive v"
  shows "clampClusterIndex (Math_floor v) (IFin 0) (IFin n) = IFin (min 0 n)"
proof -
  from assms consider "v = NegInf" | y where "v = Fin y" "y \<le> 0" unfolding nonPositive_def by blast
  then show ?thesis
  proof cases
    case 1
    then show ?thesis by (simp add: clampClusterIndex_def)
  next
    case 2
    then have "\<lfloor>y\<rfloor> \<le> 0" by linarith
    then show ?thesis using 2 by (simp add: clampClusterIndex_def max_absorb2)
  qed
qed

lemma clamp_ceil_nonPositive:
  assumes "nonPositive v"
  shows "clampClusterIndex (Math_ceil v) (IFin 0) (IFin n) = IFin (min 0 n)"
proof -
  from assms consider "v = NegInf" | y where "v = Fin y" "y \<le> 0" unfolding nonPositive_def by blast
  then show ?thesis
  proof cases
    case 1
    then show ?thesis by (simp add: clampClusterIndex_def)
  next
    case 2
    then have "\<lceil>y\<rceil> \<le> 0" by linarith
    then show ?thesis using 2 by (simp add: clampClusterIndex_def max_absorb2)
  qed
qed

lemma zStep_near_ge_far:
  assumes sp: "signPreserving fp" and nf: "far cam \<le> near cam" and nz: "0 < zSlices r"
  shows "nonPositive (zStep fp r cam)"
proof -
  have d: "nonPositive (js_sub fp (Fin (far cam)) (Fin (near cam)))"
    using rnd_nonPositive[OF sp, of "far cam - near cam"] nf by (simp add: js_sub_def)
  then consider "js_sub fp (Fin (far cam)) (Fin (near cam)) = NegInf"
    | y where "js_sub fp (Fin (far cam)) (Fin (near cam)) = Fin y" "y \<le> 0"
    unfolding nonPositive_def by blast
  then show ?thesis
  proof cases
    case 1
    then show ?thesis using nz by (simp add: zStep_def nonPositive_def)
  next
    case 2
    have "y / real_of_int (zSlices r) \<le> 0" using 2(2) nz by (simp add: divide_nonpos_pos)
    then have "nonPositive (rnd fp (y / real_of_int (zSlices r)))" by (rule rnd_nonPositive[OF sp])
    then show ?thesis using 2(1) nz by (simp add: zStep_def)
  qed
qed

lemma quotient_by_nonPositive:
  assumes sp: "signPreserving fp" and s: "nonPositive s" and z: "0 < zn"
  shows "js_div fp (Fin zn) s = PosInf \<and> s = Fin 0 \<or> nonPositive (js_div fp (Fin zn) s) \<and> s \<noteq> Fin 0"
proof -
  from s consider "s = NegInf" | y where "s = Fin y" "y \<le> 0" unfolding nonPositive_def by blast
  then show ?thesis
  proof cases
    case 1
    then show ?thesis by (simp add: nonPositive_def)
  next
    case 2
    show ?thesis
    proof (cases "y = 0")
      case True
      then show ?thesis using 2 z by simp
    next
      case False
      then have "zn / y \<le> 0" using 2(2) z by (simp add: divide_nonneg_neg divide_le_0_iff)
      then have "nonPositive (rnd fp (zn / y))" by (rule rnd_nonPositive[OF sp])
      then show ?thesis using 2 False by simp
    qed
  qed
qed

lemma z_range_near_ge_far:
  assumes sp: "signPreserving fp" and nf: "far cam \<le> near cam"
    and zn: "zNear fp vm l = Fin zn" "0 < zn" and zf: "zFar fp vm l = Fin zf" "0 < zf"
  shows "zMin (lightClusterRange fp r cam vm l) = zMax (lightClusterRange fp r cam vm l)"
proof (cases "0 < zSlices r")
  case False
  have "axisRangeOK (zSlices r) (zMin (lightClusterRange fp r cam vm l))
      (zMax (lightClusterRange fp r cam vm l))" by (rule lightClusterRange_axes)
  then show ?thesis using False unfolding axisRangeOK_def by auto
next
  case True
  let ?s = "zStep fp r cam"
  have s: "nonPositive ?s" by (rule zStep_near_ge_far[OF sp nf True])
  have eq: "clampClusterIndex (zMinRaw fp r cam vm l) (IFin 0) (IFin (zSlices r))
      = clampClusterIndex (zMaxRaw fp r cam vm l) (IFin 0) (IFin (zSlices r))"
  proof (cases "?s = Fin 0")
    case True
    then show ?thesis using zn zf by (simp add: zMinRaw_def zMaxRaw_def)
  next
    case False
    have "nonPositive (js_div fp (Fin zn) ?s)" "nonPositive (js_div fp (Fin zf) ?s)"
      using quotient_by_nonPositive[OF sp s zn(2)] quotient_by_nonPositive[OF sp s zf(2)] False
      by blast+
    then show ?thesis
      unfolding zMinRaw_def zMaxRaw_def zn(1) zf(1)
      by (simp add: clamp_floor_nonPositive clamp_ceil_nonPositive)
  qed
  have m: "Math_min v v = v" "Math_max v v = v" for v by (cases v; simp)+
  show ?thesis by (simp add: lightClusterRange_def Let_def eq m)
qed

lemma gridCells_empty:
  "xs = [] \<or> ys = [] \<or> zs = [] \<Longrightarrow> gridCells xs ys zs = []"
  using set_gridCells[of xs ys zs] by (auto simp del: set_empty simp: set_empty[symmetric])

lemma populateLight_empty:
  assumes "forRange (xMin rg) (xMax rg) = [] \<or> forRange (yMin rg) (yMax rg) = []
     \<or> forRange (zMin rg) (zMax rg) = []"
  shows "populateLight r rg i buf = buf"
  using gridCells_empty[OF assms] by (simp add: populateLight_fold visitedClusters_def)

lemma camera_near_eq_far_fields:
  "near camera_near_eq_far = 1" "far camera_near_eq_far = 1" "fov camera_near_eq_far = 90"
  "aspect camera_near_eq_far = 1"
  by (simp_all add: camera_near_eq_far_def)

lemma tanFov_camera_near_eq_far: "tanFov exact camera_near_eq_far = Fin 1"
proof -
  have "0.5 * 90 * (pi / 180.0) = pi / 4" by simp
  then show ?thesis by (simp add: tanFov_def camera_near_eq_far_fields cos_45 tan_45)
qed

lemma camera_fov_neg_fields:
  "near camera_fov_neg = 1" "far camera_fov_neg = 5" "fov camera_fov_neg = - 90"
  "aspect camera_fov_neg = 1"
  by (simp_all add: camera_fov_neg_def)

lemma tanFov_camera_fov_neg: "tanFov exact camera_fov_neg = Fin (- 1)"
proof -
  have e: "0.5 * (- 90) * (pi / 180.0) = - (pi / 4)" by simp
  have "cos (- (pi / 4)) \<noteq> 0" by (simp add: cos_45)
  moreover have "tan (- (pi / 4)) = - 1" by (simp add: tan_45)
  ultimately show ?thesis
    unfolding tanFov_def camera_fov_neg_fields by (simp add: e)
qed

lemma signPreserving_exact: "signPreserving exact"
  by (simp add: signPreserving_def)

lemma range_around_camera:
  "lightClusterRange exact grid444 camera_near_eq_far mat4_identity light_around_camera
   = \<lparr>xMin = IFin 1, xMax = IFin 3, yMin = IFin 1, yMax = IFin 3, zMin = IFin 0, zMax = IFin 4\<rparr>"
  by (simp add: lightClusterRange_def range_defs tanFov_camera_near_eq_far
      camera_near_eq_far_fields grid444_def light_around_camera_def Let_def)

lemma range_fov_neg:
  "lightClusterRange exact grid444 camera_fov_neg mat4_identity light_2_5
   = \<lparr>xMin = IFin 1, xMax = IFin 3, yMin = IFin 1, yMax = IFin 3, zMin = IFin 2, zMax = IFin 3\<rparr>"
  by (simp add: lightClusterRange_def range_defs tanFov_camera_fov_neg
      camera_fov_neg_fields grid444_def light_2_5_def Let_def)

lemma range_negative_radius:
  "lightClusterRange exact grid444 camera90 mat4_identity light_negative_radius
   = \<lparr>xMin = IFin 1, xMax = IFin 3, yMin = IFin 1, yMax = IFin 3, zMin = IFin 1, zMax = IFin 4\<rparr>"
  by (simp add: lightClusterRange_def range_defs tanFov_camera90
      camera90_fields grid444_def light_negative_radius_def Let_def)

lemma single_light_record:
  assumes b: "0 \<le> x \<and> x < xSlices grid444 \<and> 0 \<le> y \<and> y < ySlices grid444
      \<and> 0 \<le> z \<and> z < zSlices grid444"
    and v: "inClusterRange (lightClusterRange exact grid444 cam vm l) x y z"
  shows "clusterComponent (updateClusters exact grid444 cam vm \<lparr>lights = [l]\<rparr>)
           (clusterIndex1D grid444 x y z) 0 = Some 1"
    and "clusterComponent (updateClusters exact grid444 cam vm \<lparr>lights = [l]\<rparr>)
           (clusterIndex1D grid444 x y z) 1 = Some 0"
proof -
  let ?r' = "updateClusters exact grid444 cam vm \<lparr>lights = [l]\<rparr>"
  have ov: "filter (\<lambda>i. inClusterRange
       (lightClusterRange exact grid444 cam vm (lights \<lparr>lights = [l]\<rparr> ! i)) x y z)
       [0..<length (lights \<lparr>lights = [l]\<rparr>)] = [0]"
    using v by simp
  have h: "clusterHolds (buffer (clusterTexture ?r')) (clusterIndex1D grid444 x y z) [0]"
    using updateClusters_record[OF rendererOK_grid444 b, of exact cam vm "\<lparr>lights = [l]\<rparr>"]
    unfolding ov .
  have pe: "pixelsPerElement (clusterTexture ?r') = 126" by (simp add: grid444_def)
  show "clusterComponent ?r' (clusterIndex1D grid444 x y z) 0 = Some 1"
    using h by (simp add: clusterComponent_eq[OF pe] clusterHolds_def)
  show "clusterComponent ?r' (clusterIndex1D grid444 x y z) 1 = Some 0"
    using h by (simp add: clusterComponent_eq[OF pe] clusterHolds_def)
qed

section \<open>The x range under the identity view matrix\<close>

text \<open>
  With the identity view matrix, a radius that is not negative and no rounding, the x
  axis rounds the smaller bound down and the larger bound up, so its range can only grow
  with the radius. The z axis of the same code rounds the other way round (claim C7).
\<close>

lemma half_div_exact:
  fixes h n :: real
  shows "js_div exact (js_mul exact (Fin n) (Fin h)) (js_mul exact (Fin 2.0) (Fin h))
     = (if h = 0 then NaN else Fin (n / 2))"
  by simp

lemma orOne_one [simp]: "orOne (Fin 1) = Fin 1"
  by simp

lemma viewBB_identity:
  "viewBBMin exact mat4_identity l = bbMin exact l" "viewBBMax exact mat4_identity l = bbMax exact l"
  by (simp_all add: viewBBMin_def viewBBMax_def transformMat4_def matRow_def mat4_identity_def
      elem0_def elem1_def elem2_def bbMin_def bbMax_def js_sub_def Let_def)

lemma clamp_IFin:
  "clampClusterIndex (IFin a) (IFin 0) (IFin n) = IFin (min (max a 0) n)"
  by (simp add: clampClusterIndex_def)

lemma clamp_mono:
  fixes a b n :: int
  shows "a \<le> b \<Longrightarrow> min (max a 0) n \<le> min (max b 0) n"
  by (simp add: min_def max_def)

lemma floor_le_ceiling_mono:
  fixes u v :: real
  assumes "u \<le> v"
  shows "\<lfloor>u\<rfloor> \<le> \<lceil>v\<rceil>"
proof -
  have "\<lfloor>u\<rfloor> \<le> \<lfloor>v\<rfloor>" using assms by (rule floor_mono)
  also have "\<dots> \<le> \<lceil>v\<rceil>" by (rule floor_le_ceiling)
  finally show ?thesis .
qed

lemma x_range_identity:
  assumes nz: "halfXLenNear exact cam mat4_identity l = Fin hn" "hn \<noteq> 0"
    "halfXLenFar exact cam mat4_identity l = Fin hf" "hf \<noteq> 0"
    and rad: "0 \<le> radius l"
  shows "xMin (lightClusterRange exact r cam mat4_identity l)
           = IFin (min (max \<lfloor>elem0 (position l) - radius l + real_of_int (xSlices r) / 2\<rfloor> 0)
                       (xSlices r))"
    and "xMax (lightClusterRange exact r cam mat4_identity l)
           = IFin (min (max \<lceil>elem0 (position l) + radius l + real_of_int (xSlices r) / 2\<rceil> 0)
                       (xSlices r))"
proof -
  let ?lo = "elem0 (position l) - radius l + real_of_int (xSlices r) / 2"
  let ?hi = "elem0 (position l) + radius l + real_of_int (xSlices r) / 2"
  have raw: "xMinRaw exact r cam mat4_identity l = IFin \<lfloor>?lo\<rfloor>"
    "xMaxRaw exact r cam mat4_identity l = IFin \<lceil>?hi\<rceil>"
    using nz(2,4) unfolding xMinRaw_def xMaxRaw_def nz(1,3) half_div_exact viewBB_identity
    by (simp_all add: bbMin_def bbMax_def elem0_def js_sub_def)
  have "?lo \<le> ?hi" using rad by simp
  then have "\<lfloor>?lo\<rfloor> \<le> \<lceil>?hi\<rceil>" by (rule floor_le_ceiling_mono)
  then have le: "min (max \<lfloor>?lo\<rfloor> 0) (xSlices r) \<le> min (max \<lceil>?hi\<rceil> 0) (xSlices r)"
    by (rule clamp_mono)
  have x: "xMin (lightClusterRange exact r cam mat4_identity l)
      = Math_min (IFin (min (max \<lfloor>?lo\<rfloor> 0) (xSlices r))) (IFin (min (max \<lceil>?hi\<rceil> 0) (xSlices r)))"
    "xMax (lightClusterRange exact r cam mat4_identity l)
      = Math_max (IFin (min (max \<lfloor>?lo\<rfloor> 0) (xSlices r))) (IFin (min (max \<lceil>?hi\<rceil> 0) (xSlices r)))"
    by (simp_all only: lightClusterRange_def Let_def raw clamp_IFin clusterRange.simps)
  show "xMin (lightClusterRange exact r cam mat4_identity l) = IFin (min (max \<lfloor>?lo\<rfloor> 0) (xSlices r))"
    unfolding x using le by (simp only: Math_min.simps min_absorb1)
  show "xMax (lightClusterRange exact r cam mat4_identity l) = IFin (min (max \<lceil>?hi\<rceil> 0) (xSlices r))"
    unfolding x using le by (simp only: Math_max.simps max_absorb2)
qed

lemma x_range_grows_with_radius:
  assumes pos: "position l2 = position l1" and rad: "0 \<le> radius l1" "radius l1 \<le> radius l2"
    and nz1: "halfXLenNear exact cam mat4_identity l1 = Fin hn1" "hn1 \<noteq> 0"
      "halfXLenFar exact cam mat4_identity l1 = Fin hf1" "hf1 \<noteq> 0"
    and nz2: "halfXLenNear exact cam mat4_identity l2 = Fin hn2" "hn2 \<noteq> 0"
      "halfXLenFar exact cam mat4_identity l2 = Fin hf2" "hf2 \<noteq> 0"
  shows "\<exists>a1 b1 a2 b2.
           xMin (lightClusterRange exact r cam mat4_identity l1) = IFin a1
         \<and> xMax (lightClusterRange exact r cam mat4_identity l1) = IFin b1
         \<and> xMin (lightClusterRange exact r cam mat4_identity l2) = IFin a2
         \<and> xMax (lightClusterRange exact r cam mat4_identity l2) = IFin b2
         \<and> a2 \<le> a1 \<and> b1 \<le> b2"
proof -
  let ?h = "real_of_int (xSlices r) / 2"
  let ?p = "elem0 (position l1)"
  have rad2: "0 \<le> radius l2" using rad by simp
  have "\<lfloor>?p - radius l2 + ?h\<rfloor> \<le> \<lfloor>?p - radius l1 + ?h\<rfloor>"
    using rad by (intro floor_mono) simp
  then have a: "min (max \<lfloor>?p - radius l2 + ?h\<rfloor> 0) (xSlices r)
      \<le> min (max \<lfloor>?p - radius l1 + ?h\<rfloor> 0) (xSlices r)" by (rule clamp_mono)
  have "\<lceil>?p + radius l1 + ?h\<rceil> \<le> \<lceil>?p + radius l2 + ?h\<rceil>"
    using rad by (intro ceiling_mono) simp
  then have b: "min (max \<lceil>?p + radius l1 + ?h\<rceil> 0) (xSlices r)
      \<le> min (max \<lceil>?p + radius l2 + ?h\<rceil> 0) (xSlices r)" by (rule clamp_mono)
  show ?thesis
    unfolding x_range_identity[OF nz1 rad(1), of r] x_range_identity[OF nz2 rad2, of r] pos
    using a b by blast
qed

section \<open>The claims\<close>

text \<open>
  Claim C1. After updateClusters, on a renderer as the constructor builds it, every
  cluster of the grid holds a light count of at most \<open>MAX_LIGHTS_PER_CLUSTER\<close>: the count
  is the number of lights whose cluster range contains the cluster, cut at 500, and the
  index slots 1 to count hold exactly the first of these lights, in scene order. The
  lights beyond the capacity are left out of this cluster only; nothing is raised. This
  holds whatever the rounding of the arithmetic is. (Light indices are naturals here; a
  Float32Array holds them exactly below \<open>2^24\<close>.)
\<close>

theorem capacity_bound_first_come:
  assumes ok: "rendererOK r"
    and b: "0 \<le> x" "x < xSlices r" "0 \<le> y" "y < ySlices r" "0 \<le> z" "z < zSlices r"
  shows "\<exists>n. clusterComponent (updateClusters fp r cam viewMatrix sc) (clusterIndex1D r x y z) 0 = Some n
       \<and> n \<le> MAX_LIGHTS_PER_CLUSTER
       \<and> n = min MAX_LIGHTS_PER_CLUSTER
               (length (overlappingLights fp r cam viewMatrix (lights sc) x y z))
       \<and> (\<forall>k<n. clusterComponent (updateClusters fp r cam viewMatrix sc) (clusterIndex1D r x y z) (k + 1)
                  = Some (overlappingLights fp r cam viewMatrix (lights sc) x y z ! k))"
proof -
  let ?r' = "updateClusters fp r cam viewMatrix sc"
  let ?c = "clusterIndex1D r x y z"
  let ?ov = "overlappingLights fp r cam viewMatrix (lights sc) x y z"
  have b': "0 \<le> x \<and> x < xSlices r \<and> 0 \<le> y \<and> y < ySlices r \<and> 0 \<le> z \<and> z < zSlices r"
    using b by simp
  have pe: "pixelsPerElement (clusterTexture ?r') = 126" using ok by (simp add: rendererOK_def)
  have h: "clusterHolds (buffer (clusterTexture ?r')) ?c ?ov"
    using updateClusters_record[OF ok b'] by (simp add: overlappingLights_def)
  have 0: "clusterComponent ?r' ?c 0 = Some (min 500 (length ?ov))"
    using h by (simp add: clusterComponent_eq[OF pe] clusterHolds_def)
  have k: "clusterComponent ?r' ?c (k + 1) = Some (?ov ! k)" if "k < min 500 (length ?ov)" for k
    using h that by (simp add: clusterComponent_eq[OF pe] clusterHolds_def add.assoc)
  show ?thesis
  proof (intro exI conjI allI impI)
    show "clusterComponent ?r' ?c 0 = Some (min 500 (length ?ov))" by (rule 0)
    show "min 500 (length ?ov) \<le> MAX_LIGHTS_PER_CLUSTER" by (simp add: MAX_LIGHTS_PER_CLUSTER_def)
    show "min 500 (length ?ov) = min MAX_LIGHTS_PER_CLUSTER (length ?ov)"
      by (simp add: MAX_LIGHTS_PER_CLUSTER_def)
    fix k assume "k < min 500 (length ?ov)"
    then show "clusterComponent ?r' ?c (k + 1) = Some (?ov ! k)" by (rule k)
  qed
qed

theorem capacity_bound_first_come_witness:
  "rendererOK grid444
   \<and> (0::int) \<le> 1 \<and> 1 < xSlices grid444 \<and> 1 < ySlices grid444 \<and> (0::int) \<le> 2 \<and> 2 < zSlices grid444
   \<and> length (lights \<lparr>lights = replicate 501 light_2_5\<rparr>) = 501
   \<and> clusterComponent
        (updateClusters exact grid444 camera90 mat4_identity \<lparr>lights = replicate 501 light_2_5\<rparr>) 37 0
       = Some 500
   \<and> clusterComponent
        (updateClusters exact grid444 camera90 mat4_identity \<lparr>lights = replicate 501 light_2_5\<rparr>) 37 1
       = Some 0
   \<and> clusterComponent
        (updateClusters exact grid444 camera90 mat4_identity \<lparr>lights = replicate 501 light_2_5\<rparr>) 37 500
       = Some 499"
proof -
  let ?r' = "updateClusters exact grid444 camera90 mat4_identity \<lparr>lights = replicate 501 light_2_5\<rparr>"
  have ok: "rendererOK grid444" by (rule rendererOK_grid444)
  have b: "(0::int) \<le> 1" "1 < xSlices grid444" "(0::int) \<le> 1" "1 < ySlices grid444"
    "(0::int) \<le> 2" "2 < zSlices grid444"
    by (simp_all add: grid444_def)
  have c: "clusterIndex1D grid444 1 1 2 = 37" by (simp add: clusterIndex1D_def grid444_def)
  from capacity_bound_first_come[OF ok b, of exact camera90 mat4_identity "\<lparr>lights = replicate 501 light_2_5\<rparr>"]
  obtain n where n0: "clusterComponent ?r' 37 0 = Some n"
    and n: "n = min MAX_LIGHTS_PER_CLUSTER (length [0..<501::nat])"
    and nk: "\<forall>k<n. clusterComponent ?r' 37 (k + 1) = Some ([0..<501] ! k)"
    unfolding c by (auto simp: overlapping_501)
  have n500: "n = 500" using n by (simp add: MAX_LIGHTS_PER_CLUSTER_def)
  have 1: "clusterComponent ?r' 37 (0 + 1) = Some ([0..<501] ! 0)"
    using nk[rule_format, of 0] n500 by simp
  have 2: "clusterComponent ?r' 37 (499 + 1) = Some ([0..<501] ! 499)"
    using nk[rule_format, of 499] n500 by simp
  show ?thesis using ok b n0 n500 1 2 by simp
qed

text \<open>
  Claim C2, as the code has it. The code does not divide the shifted coordinate by the
  width of a slice: for a light at \<open>(10, 0, -9)\<close> of radius 1, on the 4x4x4 grid, the code
  gives \<open>xMin = floor(9 + (4 * 10) / (2 * 10)) = 11\<close>, where the formula of the claim,
  \<open>floor((viewBBMin.x + halfXLenNear) / (2 * halfXLenNear / nx))\<close>, gives
  \<open>floor(19 / 5) = 3\<close>.
\<close>

theorem x_range_spec_formula_counterexample:
  "elem0 (viewBBMin exact mat4_identity light_far_right) = Fin 9
   \<and> halfXLenNear exact camera90 mat4_identity light_far_right = Fin 10
   \<and> xMinRaw exact grid444 camera90 mat4_identity light_far_right = IFin 11
   \<and> Math_floor
        (js_div exact
           (js_add exact (elem0 (viewBBMin exact mat4_identity light_far_right))
              (halfXLenNear exact camera90 mat4_identity light_far_right))
           (js_div exact
              (js_mul exact (Fin 2.0) (halfXLenNear exact camera90 mat4_identity light_far_right))
              (Fin (real_of_int (xSlices grid444))))) = IFin 3"
  by (simp add: range_defs tanFov_camera90 camera90_fields grid444_def light_far_right_def)

text \<open>
  Claim C2, amended. Before clamping, \<open>xMin\<close> is the floor of the rounded sum of
  \<open>viewBBMin.x\<close> and the quotient \<open>(nx * halfXLenNear) / (2 * halfXLenNear)\<close>. When the
  near half width is a finite number other than zero and the three operations of the
  quotient round with a relative error of at most \<open>u \<le> 1/5\<close>, the quotient is a number
  \<open>q\<close> within \<open>4 * u * nx / 2\<close> of \<open>nx / 2\<close>. When the near half width is zero,
  infinite or NaN, \<open>xMin\<close> is NaN. The same holds of \<open>xMax\<close>, with the ceiling,
  \<open>viewBBMax.x\<close> and the far half width, and of \<open>yMin\<close> and \<open>yMax\<close> with \<open>ny\<close> and the
  half heights. The division by the width of a slice, which the claim describes, is not
  made.
\<close>

theorem xy_range_is_offset_by_half_the_slices:
  assumes u: "0 \<le> u" "u \<le> 1 / 5"
  shows
  "(\<forall>h q. halfXLenNear fp cam viewMatrix l = Fin h \<and> h \<noteq> 0
           \<and> offsetQuotient u fp (real_of_int (xSlices r)) h q
      \<longrightarrow> xMinRaw fp r cam viewMatrix l
            = Math_floor (js_add fp (elem0 (viewBBMin fp viewMatrix l)) (Fin q))
          \<and> \<bar>q - real_of_int (xSlices r) / 2\<bar> \<le> 4 * u * \<bar>real_of_int (xSlices r) / 2\<bar>)
   \<and> (\<forall>h q. halfXLenFar fp cam viewMatrix l = Fin h \<and> h \<noteq> 0
           \<and> offsetQuotient u fp (real_of_int (xSlices r)) h q
      \<longrightarrow> xMaxRaw fp r cam viewMatrix l
            = Math_ceil (js_add fp (elem0 (viewBBMax fp viewMatrix l)) (Fin q))
          \<and> \<bar>q - real_of_int (xSlices r) / 2\<bar> \<le> 4 * u * \<bar>real_of_int (xSlices r) / 2\<bar>)
   \<and> (\<forall>h q. halfYLenNear fp cam viewMatrix l = Fin h \<and> h \<noteq> 0
           \<and> offsetQuotient u fp (real_of_int (ySlices r)) h q
      \<longrightarrow> yMinRaw fp r cam viewMatrix l
            = Math_floor (js_add fp (elem1 (viewBBMin fp viewMatrix l)) (Fin q))
          \<and> \<bar>q - real_of_int (ySlices r) / 2\<bar> \<le> 4 * u * \<bar>real_of_int (ySlices r) / 2\<bar>)
   \<and> (\<forall>h q. halfYLenFar fp cam viewMatrix l = Fin h \<and> h \<noteq> 0
           \<and> offsetQuotient u fp (real_of_int (ySlices r)) h q
      \<longrightarrow> yMaxRaw fp r cam viewMatrix l
            = Math_ceil (js_add fp (elem1 (viewBBMax fp viewMatrix l)) (Fin q))
          \<and> \<bar>q - real_of_int (ySlices r) / 2\<bar> \<le> 4 * u * \<bar>real_of_int (ySlices r) / 2\<bar>)
   \<and> ((\<forall>h. halfXLenNear fp cam viewMatrix l = Fin h \<longrightarrow> h = 0)
        \<longrightarrow> xMinRaw fp r cam viewMatrix l = INaN)
   \<and> ((\<forall>h. halfXLenFar fp cam viewMatrix l = Fin h \<longrightarrow> h = 0)
        \<longrightarrow> xMaxRaw fp r cam viewMatrix l = INaN)
   \<and> ((\<forall>h. halfYLenNear fp cam viewMatrix l = Fin h \<longrightarrow> h = 0)
        \<longrightarrow> yMinRaw fp r cam viewMatrix l = INaN)
   \<and> ((\<forall>h. halfYLenFar fp cam viewMatrix l = Fin h \<longrightarrow> h = 0)
        \<longrightarrow> yMaxRaw fp r cam viewMatrix l = INaN)"
proof (intro conjI allI impI)
  fix h q
  assume a: "halfXLenNear fp cam viewMatrix l = Fin h \<and> h \<noteq> 0
     \<and> offsetQuotient u fp (real_of_int (xSlices r)) h q"
  then show "xMinRaw fp r cam viewMatrix l
      = Math_floor (js_add fp (elem0 (viewBBMin fp viewMatrix l)) (Fin q))"
    using offset_quotient(1)[OF _ u, of h fp "real_of_int (xSlices r)" q]
    by (simp add: xMinRaw_def)
  from a show "\<bar>q - real_of_int (xSlices r) / 2\<bar> \<le> 4 * u * \<bar>real_of_int (xSlices r) / 2\<bar>"
    using offset_quotient(2)[OF _ u, of h fp "real_of_int (xSlices r)" q] by simp
next
  fix h q
  assume a: "halfXLenFar fp cam viewMatrix l = Fin h \<and> h \<noteq> 0
     \<and> offsetQuotient u fp (real_of_int (xSlices r)) h q"
  then show "xMaxRaw fp r cam viewMatrix l
      = Math_ceil (js_add fp (elem0 (viewBBMax fp viewMatrix l)) (Fin q))"
    using offset_quotient(1)[OF _ u, of h fp "real_of_int (xSlices r)" q]
    by (simp add: xMaxRaw_def)
  from a show "\<bar>q - real_of_int (xSlices r) / 2\<bar> \<le> 4 * u * \<bar>real_of_int (xSlices r) / 2\<bar>"
    using offset_quotient(2)[OF _ u, of h fp "real_of_int (xSlices r)" q] by simp
next
  fix h q
  assume a: "halfYLenNear fp cam viewMatrix l = Fin h \<and> h \<noteq> 0
     \<and> offsetQuotient u fp (real_of_int (ySlices r)) h q"
  then show "yMinRaw fp r cam viewMatrix l
      = Math_floor (js_add fp (elem1 (viewBBMin fp viewMatrix l)) (Fin q))"
    using offset_quotient(1)[OF _ u, of h fp "real_of_int (ySlices r)" q]
    by (simp add: yMinRaw_def)
  from a show "\<bar>q - real_of_int (ySlices r) / 2\<bar> \<le> 4 * u * \<bar>real_of_int (ySlices r) / 2\<bar>"
    using offset_quotient(2)[OF _ u, of h fp "real_of_int (ySlices r)" q] by simp
next
  fix h q
  assume a: "halfYLenFar fp cam viewMatrix l = Fin h \<and> h \<noteq> 0
     \<and> offsetQuotient u fp (real_of_int (ySlices r)) h q"
  then show "yMaxRaw fp r cam viewMatrix l
      = Math_ceil (js_add fp (elem1 (viewBBMax fp viewMatrix l)) (Fin q))"
    using offset_quotient(1)[OF _ u, of h fp "real_of_int (ySlices r)" q]
    by (simp add: yMaxRaw_def)
  from a show "\<bar>q - real_of_int (ySlices r) / 2\<bar> \<le> 4 * u * \<bar>real_of_int (ySlices r) / 2\<bar>"
    using offset_quotient(2)[OF _ u, of h fp "real_of_int (ySlices r)" q] by simp
next
  assume "\<forall>h. halfXLenNear fp cam viewMatrix l = Fin h \<longrightarrow> h = 0"
  then have "js_div fp (js_mul fp (Fin (real_of_int (xSlices r))) (halfXLenNear fp cam viewMatrix l))
      (js_mul fp (Fin 2.0) (halfXLenNear fp cam viewMatrix l)) = NaN"
    by (rule nan_quotient)
  then show "xMinRaw fp r cam viewMatrix l = INaN"
    by (simp add: xMinRaw_def)
next
  assume "\<forall>h. halfXLenFar fp cam viewMatrix l = Fin h \<longrightarrow> h = 0"
  then have "js_div fp (js_mul fp (Fin (real_of_int (xSlices r))) (halfXLenFar fp cam viewMatrix l))
      (js_mul fp (Fin 2.0) (halfXLenFar fp cam viewMatrix l)) = NaN"
    by (rule nan_quotient)
  then show "xMaxRaw fp r cam viewMatrix l = INaN"
    by (simp add: xMaxRaw_def)
next
  assume "\<forall>h. halfYLenNear fp cam viewMatrix l = Fin h \<longrightarrow> h = 0"
  then have "js_div fp (js_mul fp (Fin (real_of_int (ySlices r))) (halfYLenNear fp cam viewMatrix l))
      (js_mul fp (Fin 2.0) (halfYLenNear fp cam viewMatrix l)) = NaN"
    by (rule nan_quotient)
  then show "yMinRaw fp r cam viewMatrix l = INaN"
    by (simp add: yMinRaw_def)
next
  assume "\<forall>h. halfYLenFar fp cam viewMatrix l = Fin h \<longrightarrow> h = 0"
  then have "js_div fp (js_mul fp (Fin (real_of_int (ySlices r))) (halfYLenFar fp cam viewMatrix l))
      (js_mul fp (Fin 2.0) (halfYLenFar fp cam viewMatrix l)) = NaN"
    by (rule nan_quotient)
  then show "yMaxRaw fp r cam viewMatrix l = INaN"
    by (simp add: yMaxRaw_def)
qed

theorem xy_range_is_offset_by_half_the_slices_witness:
  "(0::real) \<le> 1 / 2 ^ 53 \<and> (1::real) / 2 ^ 53 \<le> 1 / 5
   \<and> halfXLenNear exact camera90 mat4_identity light_far_right = Fin 10
   \<and> offsetQuotient (1 / 2 ^ 53) exact (real_of_int (xSlices grid444)) 10 2
   \<and> elem0 (viewBBMin exact mat4_identity light_far_right) = Fin 9
   \<and> xMinRaw exact grid444 camera90 mat4_identity light_far_right = IFin 11
   \<and> halfXLenFar exact camera90 mat4_identity light_far_right = Fin 8
   \<and> elem0 (viewBBMax exact mat4_identity light_far_right) = Fin 11
   \<and> xMaxRaw exact grid444 camera90 mat4_identity light_far_right = IFin 13"
proof -
  have u: "(0::real) \<le> 1 / 2 ^ 53" "(1::real) / 2 ^ 53 \<le> 1 / 5" by simp_all
  have h: "halfXLenNear exact camera90 mat4_identity light_far_right = Fin 10"
    "halfXLenFar exact camera90 mat4_identity light_far_right = Fin 8"
    by (simp_all add: range_defs tanFov_camera90 camera90_fields light_far_right_def)
  have v: "elem0 (viewBBMin exact mat4_identity light_far_right) = Fin 9"
    "elem0 (viewBBMax exact mat4_identity light_far_right) = Fin 11"
    by (simp_all add: range_defs light_far_right_def)
  have n: "real_of_int (xSlices grid444) = 4" by (simp add: grid444_def)
  have q1: "offsetQuotient (1 / 2 ^ 53) exact (real_of_int (xSlices grid444)) 10 2"
    using offsetQuotient_exact[OF u(1), of 10 4] n by simp
  have q2: "offsetQuotient (1 / 2 ^ 53) exact (real_of_int (xSlices grid444)) 8 2"
    using offsetQuotient_exact[OF u(1), of 8 4] n by simp
  note t = xy_range_is_offset_by_half_the_slices[OF u, of exact camera90 mat4_identity
      light_far_right grid444]
  have "xMinRaw exact grid444 camera90 mat4_identity light_far_right
      = Math_floor (js_add exact (elem0 (viewBBMin exact mat4_identity light_far_right)) (Fin 2))"
    using t[THEN conjunct1, rule_format, of 10 2] h(1) q1 by simp
  then have 1: "xMinRaw exact grid444 camera90 mat4_identity light_far_right = IFin 11"
    by (simp add: v)
  have "xMaxRaw exact grid444 camera90 mat4_identity light_far_right
      = Math_ceil (js_add exact (elem0 (viewBBMax exact mat4_identity light_far_right)) (Fin 2))"
    using t[THEN conjunct2, THEN conjunct1, rule_format, of 8 2] h(2) q2 by simp
  then have 2: "xMaxRaw exact grid444 camera90 mat4_identity light_far_right = IFin 13"
    by (simp add: v)
  show ?thesis using u h v q1 1 2 by (intro conjI)
qed

text \<open>
  Claim C3, evaluated on the code. For the fragment at the view-space position
  \<open>(0.25, 0.25, -2.5)\<close>, with the camera and the 4x4x4 grid of the examples and
  \<open>u_clipDist = far - near\<close>, the shader computes the cluster index -22: it divides
  \<open>viewPos.z\<close> without negating it. updateClusters puts a light at that position into
  the cluster \<open>(2, 2, 2)\<close>, of index 42.
\<close>

theorem shader_cluster_index_differs:
  "shaderViewPos mat4_identity (position light_at_fragment) = (0.25, 0.25, - 2.5)
   \<and> viewBBMin exact mat4_identity light_at_fragment = (Fin 0.25, Fin 0.25, Fin (- 2.5))
   \<and> viewBBMax exact mat4_identity light_at_fragment = (Fin 0.25, Fin 0.25, Fin (- 2.5))
   \<and> shaderClusterIndex (0.25, 0.25, - 2.5) (fov camera90) (aspect camera90)
        (far camera90 - near camera90)
        (real_of_int (xSlices grid444), real_of_int (ySlices grid444), real_of_int (zSlices grid444))
       = Some (- 22)
   \<and> lightClusterRange exact grid444 camera90 mat4_identity light_at_fragment
       = \<lparr>xMin = IFin 2, xMax = IFin 3, yMin = IFin 2, yMax = IFin 3, zMin = IFin 2, zMax = IFin 3\<rparr>
   \<and> clusterIndex1D grid444 2 2 2 = 42"
proof -
  have t: "tan (0.5 * 90 * (pi / 180.0)) = 1"
  proof -
    have "0.5 * 90 * (pi / 180.0) = pi / 4" by simp
    then show ?thesis by (simp add: tan_45)
  qed
  have 1: "shaderViewPos mat4_identity (position light_at_fragment) = (0.25, 0.25, - 2.5)"
    by (simp add: shaderViewPos_def mat4_identity_def elem0_def elem1_def elem2_def
        light_at_fragment_def)
  have 2: "viewBBMin exact mat4_identity light_at_fragment = (Fin 0.25, Fin 0.25, Fin (- 2.5))"
    "viewBBMax exact mat4_identity light_at_fragment = (Fin 0.25, Fin 0.25, Fin (- 2.5))"
    by (simp_all add: range_defs light_at_fragment_def Let_def)
  have 3: "shaderClusterIndex (0.25, 0.25, - 2.5) (fov camera90) (aspect camera90)
        (far camera90 - near camera90)
        (real_of_int (xSlices grid444), real_of_int (ySlices grid444), real_of_int (zSlices grid444))
       = Some (- 22)"
    unfolding shaderClusterIndex_def camera90_fields t
    by (simp add: glsl_int_def elem0_def elem1_def elem2_def grid444_def)
  have 4: "lightClusterRange exact grid444 camera90 mat4_identity light_at_fragment
       = \<lparr>xMin = IFin 2, xMax = IFin 3, yMin = IFin 2, yMax = IFin 3, zMin = IFin 2, zMax = IFin 3\<rparr>"
    by (simp add: lightClusterRange_def range_defs tanFov_camera90 camera90_fields grid444_def
        light_at_fragment_def Let_def)
  have 5: "clusterIndex1D grid444 2 2 2 = 42" by (simp add: clusterIndex1D_def grid444_def)
  show ?thesis using 1 2 3 4 5 by (intro conjI)
qed

text \<open>
  Claim C4. For every cell \<open>(x, y, z)\<close> inside the grid, the 1D index
  \<open>x + y * nx + z * nx * ny\<close> lies in \<open>[0, nx * ny * nz)\<close>, and no other cell inside the
  grid has the same index. The reset loop writes 0 at the count slot of the cluster of
  index \<open>x + y * nx + z * nx * ny\<close> for each cell \<open>(x, y, z)\<close> it runs through, and the
  population loop adds the light to the cluster of index \<open>x + y * nx + z * nx * ny\<close> for
  each cell of the light's range: both loops use this formula.
\<close>

theorem clusterIndex1D_range_injective:
  assumes "0 \<le> x" "x < xSlices r" "0 \<le> y" "y < ySlices r" "0 \<le> z" "z < zSlices r"
  shows "0 \<le> clusterIndex1D r x y z
       \<and> clusterIndex1D r x y z < xSlices r * ySlices r * zSlices r
       \<and> (\<forall>x' y' z'. 0 \<le> x' \<and> x' < xSlices r \<and> 0 \<le> y' \<and> y' < ySlices r
              \<and> 0 \<le> z' \<and> z' < zSlices r
              \<and> clusterIndex1D r x' y' z' = clusterIndex1D r x y z
            \<longrightarrow> x' = x \<and> y' = y \<and> z' = z)
       \<and> clusterIndex1D r x y z = x + y * xSlices r + z * xSlices r * ySlices r
       \<and> resetCounts r buf =
           fold (\<lambda>(x, y, z) b.
                   bufWrite b (bufferIndex (clusterTexture r)
                                 (x + y * xSlices r + z * xSlices r * ySlices r) 0) 0)
             (gridCells (forRange (IFin 0) (IFin (xSlices r))) (forRange (IFin 0) (IFin (ySlices r)))
                (forRange (IFin 0) (IFin (zSlices r)))) buf
       \<and> populateLight r rg i buf =
           fold (\<lambda>(x, y, z) b. addLight r b (x + y * xSlices r + z * xSlices r * ySlices r) i)
             (gridCells (forRange (xMin rg) (xMax rg)) (forRange (yMin rg) (yMax rg))
                (forRange (zMin rg) (zMax rg))) buf"
proof -
  have b: "0 \<le> x \<and> x < xSlices r \<and> 0 \<le> y \<and> y < ySlices r \<and> 0 \<le> z \<and> z < zSlices r"
    using assms by simp
  have 1: "0 \<le> clusterIndex1D r x y z" by (rule clusterIndex1D_bounds(1)[OF b])
  have 2: "clusterIndex1D r x y z < xSlices r * ySlices r * zSlices r"
    by (rule clusterIndex1D_bounds(2)[OF b])
  have 3: "\<forall>x' y' z'. 0 \<le> x' \<and> x' < xSlices r \<and> 0 \<le> y' \<and> y' < ySlices r
              \<and> 0 \<le> z' \<and> z' < zSlices r
              \<and> clusterIndex1D r x' y' z' = clusterIndex1D r x y z
            \<longrightarrow> x' = x \<and> y' = y \<and> z' = z"
  proof (intro allI impI)
    fix x' y' z'
    assume h: "0 \<le> x' \<and> x' < xSlices r \<and> 0 \<le> y' \<and> y' < ySlices r \<and> 0 \<le> z' \<and> z' < zSlices r
       \<and> clusterIndex1D r x' y' z' = clusterIndex1D r x y z"
    then have b': "0 \<le> x' \<and> x' < xSlices r \<and> 0 \<le> y' \<and> y' < ySlices r \<and> 0 \<le> z' \<and> z' < zSlices r"
      and e: "clusterIndex1D r x' y' z' = clusterIndex1D r x y z" by simp_all
    show "x' = x \<and> y' = y \<and> z' = z" by (rule clusterIndex1D_inj[OF b b' e])
  qed
  have 4: "clusterIndex1D r x y z = x + y * xSlices r + z * xSlices r * ySlices r"
    by (rule clusterIndex1D_def)
  from 1 2 3 4 resetCounts_cells[of r buf] populateLight_cells[of r rg i buf]
  show ?thesis by (intro conjI)
qed

theorem clusterIndex1D_range_injective_witness:
  "(0::int) \<le> 1 \<and> 1 < xSlices grid444 \<and> (0::int) \<le> 2 \<and> 2 < ySlices grid444
   \<and> (0::int) \<le> 3 \<and> 3 < zSlices grid444
   \<and> clusterIndex1D grid444 1 2 3 = 57
   \<and> 0 \<le> clusterIndex1D grid444 1 2 3
   \<and> clusterIndex1D grid444 1 2 3 < xSlices grid444 * ySlices grid444 * zSlices grid444
   \<and> clusterIndex1D grid444 2 2 3 \<noteq> clusterIndex1D grid444 1 2 3
   \<and> populateLight grid444 cell_1_1_2 7 (replicate 32256 3)
       = addLight grid444 (replicate 32256 3) 37 7
   \<and> bufRead (populateLight grid444 cell_1_1_2 7 (replicate 32256 3)) (37 * 504) = Some 4
   \<and> bufRead (populateLight grid444 cell_1_1_2 7 (replicate 32256 3)) (37 * 504 + 4) = Some 7"
proof -
  have h: "(0::int) \<le> 1" "1 < xSlices grid444" "(0::int) \<le> 2" "2 < ySlices grid444"
    "(0::int) \<le> 3" "3 < zSlices grid444"
    by (simp_all add: grid444_def)
  note t = clusterIndex1D_range_injective[OF h, of "replicate 32256 3" cell_1_1_2 7]
  have 1: "0 \<le> clusterIndex1D grid444 1 2 3" using t by (rule conjunct1)
  have 2: "clusterIndex1D grid444 1 2 3 < xSlices grid444 * ySlices grid444 * zSlices grid444"
    using t by (elim conjE)
  have inj: "0 \<le> x' \<and> x' < xSlices grid444 \<and> 0 \<le> y' \<and> y' < ySlices grid444
              \<and> 0 \<le> z' \<and> z' < zSlices grid444
              \<and> clusterIndex1D grid444 x' y' z' = clusterIndex1D grid444 1 2 3
            \<longrightarrow> x' = 1 \<and> y' = 2 \<and> z' = 3" for x' y' z'
    using t by (elim conjE allE)
  have 3: "clusterIndex1D grid444 2 2 3 \<noteq> clusterIndex1D grid444 1 2 3"
  proof
    assume e: "clusterIndex1D grid444 2 2 3 = clusterIndex1D grid444 1 2 3"
    have "(0::int) \<le> 2 \<and> 2 < xSlices grid444 \<and> (0::int) \<le> 2 \<and> 2 < ySlices grid444
              \<and> (0::int) \<le> 3 \<and> 3 < zSlices grid444
              \<and> clusterIndex1D grid444 2 2 3 = clusterIndex1D grid444 1 2 3"
      using e h by (intro conjI) (simp_all add: grid444_def)
    then have "(2::int) = 1 \<and> (2::int) = 2 \<and> (3::int) = 3" by (rule inj[of 2 2 3, THEN mp])
    then show False by simp
  qed
  have 4: "clusterIndex1D grid444 1 2 3 = 57" by (simp add: clusterIndex1D_def grid444_def)
  have "populateLight grid444 cell_1_1_2 7 (replicate 32256 3) =
           fold (\<lambda>(x, y, z) b. addLight grid444 b
                   (x + y * xSlices grid444 + z * xSlices grid444 * ySlices grid444) 7)
             (gridCells (forRange (xMin cell_1_1_2) (xMax cell_1_1_2))
                (forRange (yMin cell_1_1_2) (yMax cell_1_1_2))
                (forRange (zMin cell_1_1_2) (zMax cell_1_1_2))) (replicate 32256 3)"
    using t by (elim conjE)
  then have 5: "populateLight grid444 cell_1_1_2 7 (replicate 32256 3)
       = addLight grid444 (replicate 32256 3) 37 7"
    by (simp add: cell_1_1_2_def gridCells_def grid444_def)
  have pe: "pixelsPerElement (clusterTexture grid444) = 126" by (simp add: grid444_def)
  have rd: "bufRead (replicate 32256 3) (37 * 504) = Some 3" by (simp add: bufRead_def)
  have 6: "bufRead (populateLight grid444 cell_1_1_2 7 (replicate 32256 3)) (37 * 504) = Some 4"
    "bufRead (populateLight grid444 cell_1_1_2 7 (replicate 32256 3)) (37 * 504 + 4) = Some 7"
    unfolding 5 addLight_eq[OF pe] using rd by (simp_all add: bufRead_bufWrite)
  show ?thesis using h 1 2 3 4 5 6 by (intro conjI)
qed

text \<open>
  Claim C5. Before clamping, the z range of a light is computed from the corners
  \<open>position - radius\<close> and \<open>position + radius\<close> of its bounding box, kept as floats, and
  their images under \<open>vec3.transformMat4\<close>, whose z component is the third row of the
  view matrix applied to the corner, divided by the fourth (or by 1 when that is zero)
  and stored as a float: \<open>zNear = -viewBBMin.z\<close>, \<open>zFar = -viewBBMax.z\<close>,
  \<open>zStep = (far - near) / nz\<close>, \<open>zMin = floor(zNear / zStep)\<close> and
  \<open>zMax = ceil(zFar / zStep)\<close>, each operation being the rounded one of JavaScript: for
  finite \<open>zNear\<close> and a finite \<open>zStep\<close> other than zero, \<open>zMin\<close> is the floor of the
  rounded quotient. The final range is the minimum and the maximum of the two clamped
  values.
\<close>

theorem z_range_before_clamp:
  "bbMin fp l
     = (toFloat32 fp (js_sub fp (Fin (elem0 (position l))) (Fin (radius l))),
        toFloat32 fp (js_sub fp (Fin (elem1 (position l))) (Fin (radius l))),
        toFloat32 fp (js_sub fp (Fin (elem2 (position l))) (Fin (radius l))))
   \<and> bbMax fp l
     = (toFloat32 fp (js_add fp (Fin (elem0 (position l))) (Fin (radius l))),
        toFloat32 fp (js_add fp (Fin (elem1 (position l))) (Fin (radius l))),
        toFloat32 fp (js_add fp (Fin (elem2 (position l))) (Fin (radius l))))
   \<and> viewBBMin fp viewMatrix l = transformMat4 fp (bbMin fp l) viewMatrix
   \<and> viewBBMax fp viewMatrix l = transformMat4 fp (bbMax fp l) viewMatrix
   \<and> elem2 (transformMat4 fp a viewMatrix)
     = toFloat32 fp
         (js_div fp (matRow fp viewMatrix 2 (elem0 a) (elem1 a) (elem2 a))
            (orOne (matRow fp viewMatrix 3 (elem0 a) (elem1 a) (elem2 a))))
   \<and> zNear fp viewMatrix l = js_mul fp (Fin (- 1)) (elem2 (viewBBMin fp viewMatrix l))
   \<and> zFar fp viewMatrix l = js_mul fp (Fin (- 1)) (elem2 (viewBBMax fp viewMatrix l))
   \<and> zStep fp r cam
     = js_div fp (js_sub fp (Fin (far cam)) (Fin (near cam))) (Fin (real_of_int (zSlices r)))
   \<and> zMinRaw fp r cam viewMatrix l = Math_floor (js_div fp (zNear fp viewMatrix l) (zStep fp r cam))
   \<and> zMaxRaw fp r cam viewMatrix l = Math_ceil (js_div fp (zFar fp viewMatrix l) (zStep fp r cam))
   \<and> (\<forall>zn s. zNear fp viewMatrix l = Fin zn \<and> zStep fp r cam = Fin s \<and> s \<noteq> 0
        \<longrightarrow> zMinRaw fp r cam viewMatrix l = Math_floor (rnd fp (zn / s)))
   \<and> (\<forall>zf s. zFar fp viewMatrix l = Fin zf \<and> zStep fp r cam = Fin s \<and> s \<noteq> 0
        \<longrightarrow> zMaxRaw fp r cam viewMatrix l = Math_ceil (rnd fp (zf / s)))
   \<and> zMin (lightClusterRange fp r cam viewMatrix l)
       = Math_min (clampClusterIndex (zMinRaw fp r cam viewMatrix l) (IFin 0) (IFin (zSlices r)))
                  (clampClusterIndex (zMaxRaw fp r cam viewMatrix l) (IFin 0) (IFin (zSlices r)))
   \<and> zMax (lightClusterRange fp r cam viewMatrix l)
       = Math_max (clampClusterIndex (zMinRaw fp r cam viewMatrix l) (IFin 0) (IFin (zSlices r)))
                  (clampClusterIndex (zMaxRaw fp r cam viewMatrix l) (IFin 0) (IFin (zSlices r)))"
  by (simp add: viewBBMin_def viewBBMax_def bbMin_def bbMax_def zNear_def zFar_def zStep_def
      zMinRaw_def zMaxRaw_def lightClusterRange_def transformMat4_def elem2_def Let_def)

theorem z_range_before_clamp_witness:
  "bbMin exact light_near = (Fin (- 0.5), Fin (- 0.5), Fin (- 1.5))
   \<and> bbMax exact light_near = (Fin 0.5, Fin 0.5, Fin (- 0.5))
   \<and> elem2 (viewBBMin exact mat4_camera_back light_near) = Fin (- 3)
   \<and> elem2 (viewBBMax exact mat4_camera_back light_near) = Fin (- 2)
   \<and> zNear exact mat4_camera_back light_near = Fin 3
   \<and> zFar exact mat4_camera_back light_near = Fin 2
   \<and> zStep exact grid444 camera90 = Fin 1
   \<and> zMinRaw exact grid444 camera90 mat4_camera_back light_near = IFin 3
   \<and> zMaxRaw exact grid444 camera90 mat4_camera_back light_near = IFin 2"
proof -
  note t = z_range_before_clamp[of exact light_near mat4_camera_back _ grid444 camera90]
  have b: "bbMin exact light_near = (Fin (- 0.5), Fin (- 0.5), Fin (- 1.5))"
    "bbMax exact light_near = (Fin 0.5, Fin 0.5, Fin (- 0.5))"
    by (simp_all add: bbMin_def bbMax_def js_sub_def light_near_def elem0_def elem1_def elem2_def)
  have v: "elem2 (viewBBMin exact mat4_camera_back light_near) = Fin (- 3)"
    "elem2 (viewBBMax exact mat4_camera_back light_near) = Fin (- 2)"
    by (simp_all add: viewBBMin_def viewBBMax_def b transformMat4_def matRow_def mat4_camera_back_def
        elem0_def elem1_def elem2_def Let_def)
  have zn: "zNear exact mat4_camera_back light_near = Fin 3"
    and zf: "zFar exact mat4_camera_back light_near = Fin 2"
    by (simp_all add: zNear_def zFar_def v)
  have zs: "zStep exact grid444 camera90 = Fin 1"
    by (simp add: zStep_def js_sub_def camera90_fields grid444_def)
  have "zMinRaw exact grid444 camera90 mat4_camera_back light_near = Math_floor (rnd exact (3 / 1))"
    using t[THEN conjunct2, THEN conjunct2, THEN conjunct2, THEN conjunct2, THEN conjunct2,
        THEN conjunct2, THEN conjunct2, THEN conjunct2, THEN conjunct2, THEN conjunct2,
        THEN conjunct1, rule_format, of 3 1] zn zs by simp
  then have 1: "zMinRaw exact grid444 camera90 mat4_camera_back light_near = IFin 3" by simp
  have "zMaxRaw exact grid444 camera90 mat4_camera_back light_near = Math_ceil (rnd exact (2 / 1))"
    using t[THEN conjunct2, THEN conjunct2, THEN conjunct2, THEN conjunct2, THEN conjunct2,
        THEN conjunct2, THEN conjunct2, THEN conjunct2, THEN conjunct2, THEN conjunct2,
        THEN conjunct2, THEN conjunct1, rule_format, of 2 1] zf zs by simp
  then have 2: "zMaxRaw exact grid444 camera90 mat4_camera_back light_near = IFin 2" by simp
  show ?thesis using b v zn zf zs 1 2 by (intro conjI)
qed

text \<open>
  Claim C6, as the code has it. The inputs the claim calls degenerate need not give an
  empty range. A light of radius 0 outside the frustum: at \<open>(1.75, 0.5, -1.5)\<close> the half
  width of the frustum is 1.5, the light lies to the right of it, and updateClusters
  registers it in the cluster \<open>(3, 2, 1)\<close>, of index 27. A field of view of 0: the x
  range is NaN at both ends, not a clamped range with \<open>min = max\<close>. A camera with
  \<open>near = far\<close>: a light of radius 1 around the camera gets the whole z range \<open>[0, 4)\<close>
  and is registered in the cluster \<open>(1, 1, 0)\<close>, of index 5. A field of view of -90
  degrees and a radius of -1 give the ranges of 2 x 2 x 1 and of 2 x 2 x 3 clusters.
\<close>

theorem zero_radius_outside_frustum_counterexample:
  "radius light_outside = 0
   \<and> halfXLenNear exact camera90 mat4_identity light_outside = Fin 1.5
   \<and> elem0 (viewBBMin exact mat4_identity light_outside) = Fin 1.75
   \<and> lightClusterRange exact grid444 camera90 mat4_identity light_outside
       = \<lparr>xMin = IFin 3, xMax = IFin 4, yMin = IFin 2, yMax = IFin 3, zMin = IFin 1, zMax = IFin 2\<rparr>
   \<and> clusterIndex1D grid444 3 2 1 = 27
   \<and> clusterComponent
        (updateClusters exact grid444 camera90 mat4_identity \<lparr>lights = [light_outside]\<rparr>) 27 0 = Some 1
   \<and> clusterComponent
        (updateClusters exact grid444 camera90 mat4_identity \<lparr>lights = [light_outside]\<rparr>) 27 1 = Some 0
   \<and> fov camera_fov0 = 0
   \<and> xMin (lightClusterRange exact grid444 camera_fov0 mat4_identity light_2_5) = INaN
   \<and> near camera_near_eq_far = far camera_near_eq_far
   \<and> lightClusterRange exact grid444 camera_near_eq_far mat4_identity light_around_camera
       = \<lparr>xMin = IFin 1, xMax = IFin 3, yMin = IFin 1, yMax = IFin 3, zMin = IFin 0, zMax = IFin 4\<rparr>
   \<and> clusterIndex1D grid444 1 1 0 = 5
   \<and> clusterComponent
        (updateClusters exact grid444 camera_near_eq_far mat4_identity
           \<lparr>lights = [light_around_camera]\<rparr>) 5 0 = Some 1
   \<and> fov camera_fov_neg < 0
   \<and> lightClusterRange exact grid444 camera_fov_neg mat4_identity light_2_5
       = \<lparr>xMin = IFin 1, xMax = IFin 3, yMin = IFin 1, yMax = IFin 3, zMin = IFin 2, zMax = IFin 3\<rparr>
   \<and> radius light_negative_radius < 0
   \<and> lightClusterRange exact grid444 camera90 mat4_identity light_negative_radius
       = \<lparr>xMin = IFin 1, xMax = IFin 3, yMin = IFin 1, yMax = IFin 3, zMin = IFin 1, zMax = IFin 4\<rparr>"
proof -
  have c: "clusterIndex1D grid444 3 2 1 = 27" "clusterIndex1D grid444 1 1 0 = 5"
    by (simp_all add: clusterIndex1D_def grid444_def)
  have b: "(0::int) \<le> 3 \<and> 3 < xSlices grid444 \<and> (0::int) \<le> 2 \<and> 2 < ySlices grid444
      \<and> (0::int) \<le> 1 \<and> 1 < zSlices grid444"
    by (simp add: grid444_def)
  have v: "inClusterRange (lightClusterRange exact grid444 camera90 mat4_identity light_outside) 3 2 1"
    by (simp add: range_light_outside inClusterRange_def)
  note a = single_light_record[OF b v, unfolded c]
  have b': "(0::int) \<le> 1 \<and> 1 < xSlices grid444 \<and> (0::int) \<le> 1 \<and> 1 < ySlices grid444
      \<and> (0::int) \<le> 0 \<and> 0 < zSlices grid444"
    by (simp add: grid444_def)
  have v': "inClusterRange
      (lightClusterRange exact grid444 camera_near_eq_far mat4_identity light_around_camera) 1 1 0"
    by (simp add: range_around_camera inClusterRange_def)
  note a' = single_light_record(1)[OF b' v', unfolded c]
  have g: "radius light_outside = 0"
    "halfXLenNear exact camera90 mat4_identity light_outside = Fin 1.5"
    "elem0 (viewBBMin exact mat4_identity light_outside) = Fin 1.75"
    by (simp_all add: range_defs tanFov_camera90 camera90_fields light_outside_def)
  have f0: "fov camera_fov0 = 0" by (simp add: camera_fov0_def)
  have n0: "xMin (lightClusterRange exact grid444 camera_fov0 mat4_identity light_2_5) = INaN"
    by (rule xy_range_fov0(1)[OF f0])
  have m: "near camera_near_eq_far = far camera_near_eq_far" "fov camera_fov_neg < 0"
    "radius light_negative_radius < 0"
    by (simp_all add: camera_near_eq_far_fields camera_fov_neg_fields light_negative_radius_def)
  show ?thesis
    using g range_light_outside c(1) a f0 n0 m(1) range_around_camera c(2) a' m(2) range_fov_neg
      m(3) range_negative_radius
    by (intro conjI)
qed

text \<open>
  Claim C6, amended. updateClusters raises nothing (the model is a total function with no
  error value). For every renderer, camera, view matrix and light, each axis of the
  cluster range is NaN at both ends, or a pair of integers \<open>min \<le> max\<close> inside \<open>[0, dim]\<close>
  (both equal to \<open>dim\<close> when \<open>dim\<close> is negative); when an end of some axis is NaN or
  \<open>min = max\<close> on some axis, the population loop changes nothing. Two of the degenerate
  inputs do give such a range. With a field of view of 0 the x and the y range are NaN
  at both ends. With \<open>near \<ge> far\<close>, a rounding that keeps the sign and a light whose two
  corners lie at finite positive depths \<open>zNear\<close> and \<open>zFar\<close>, the z range has
  \<open>min = max\<close>. In both cases no cluster gains the light.
\<close>

theorem cluster_range_in_grid_or_nan:
  "rangeInGrid r (lightClusterRange fp r cam viewMatrix l)
   \<and> ((xMin (lightClusterRange fp r cam viewMatrix l) = INaN
        \<or> xMin (lightClusterRange fp r cam viewMatrix l) = xMax (lightClusterRange fp r cam viewMatrix l)
        \<or> yMin (lightClusterRange fp r cam viewMatrix l) = INaN
        \<or> yMin (lightClusterRange fp r cam viewMatrix l) = yMax (lightClusterRange fp r cam viewMatrix l)
        \<or> zMin (lightClusterRange fp r cam viewMatrix l) = INaN
        \<or> zMin (lightClusterRange fp r cam viewMatrix l) = zMax (lightClusterRange fp r cam viewMatrix l))
       \<longrightarrow> populateLight r (lightClusterRange fp r cam viewMatrix l) i buf = buf)
   \<and> (fov cam = 0
       \<longrightarrow> xMin (lightClusterRange fp r cam viewMatrix l) = INaN
         \<and> xMax (lightClusterRange fp r cam viewMatrix l) = INaN
         \<and> yMin (lightClusterRange fp r cam viewMatrix l) = INaN
         \<and> yMax (lightClusterRange fp r cam viewMatrix l) = INaN
         \<and> populateLight r (lightClusterRange fp r cam viewMatrix l) i buf = buf)
   \<and> (signPreserving fp \<and> far cam \<le> near cam
        \<and> (\<exists>zn zf. zNear fp viewMatrix l = Fin zn \<and> 0 < zn
                   \<and> zFar fp viewMatrix l = Fin zf \<and> 0 < zf)
       \<longrightarrow> zMin (lightClusterRange fp r cam viewMatrix l) = zMax (lightClusterRange fp r cam viewMatrix l)
         \<and> populateLight r (lightClusterRange fp r cam viewMatrix l) i buf = buf)"
proof -
  let ?rg = "lightClusterRange fp r cam viewMatrix l"
  have 1: "rangeInGrid r ?rg" by (rule lightClusterRange_inGrid)
  have e: "populateLight r ?rg i buf = buf"
    if "xMin ?rg = INaN \<or> xMin ?rg = xMax ?rg \<or> yMin ?rg = INaN \<or> yMin ?rg = yMax ?rg
      \<or> zMin ?rg = INaN \<or> zMin ?rg = zMax ?rg"
  proof -
    have "forRange (xMin ?rg) (xMax ?rg) = [] \<or> forRange (yMin ?rg) (yMax ?rg) = []
       \<or> forRange (zMin ?rg) (zMax ?rg) = []"
      using that forRange_empty[of "xMin ?rg" "xMax ?rg"] forRange_empty[of "yMin ?rg" "yMax ?rg"]
        forRange_empty[of "zMin ?rg" "zMax ?rg"] by blast
    then show ?thesis by (rule populateLight_empty)
  qed
  have 3: "xMin ?rg = INaN \<and> xMax ?rg = INaN \<and> yMin ?rg = INaN \<and> yMax ?rg = INaN
      \<and> populateLight r ?rg i buf = buf" if f: "fov cam = 0"
    using xy_range_fov0[OF f, of fp r viewMatrix l] e by simp
  have 4: "zMin ?rg = zMax ?rg \<and> populateLight r ?rg i buf = buf"
    if h: "signPreserving fp \<and> far cam \<le> near cam
        \<and> (\<exists>zn zf. zNear fp viewMatrix l = Fin zn \<and> 0 < zn
                   \<and> zFar fp viewMatrix l = Fin zf \<and> 0 < zf)"
  proof -
    from h obtain zn zf where z: "zNear fp viewMatrix l = Fin zn" "0 < zn"
      "zFar fp viewMatrix l = Fin zf" "0 < zf" by blast
    have "zMin ?rg = zMax ?rg"
      using z_range_near_ge_far[OF _ _ z, of cam r] h by blast
    then show ?thesis using e by simp
  qed
  have i2: "(xMin ?rg = INaN \<or> xMin ?rg = xMax ?rg \<or> yMin ?rg = INaN \<or> yMin ?rg = yMax ?rg
      \<or> zMin ?rg = INaN \<or> zMin ?rg = zMax ?rg) \<longrightarrow> populateLight r ?rg i buf = buf"
    using e by (rule impI)
  have i3: "fov cam = 0 \<longrightarrow> xMin ?rg = INaN \<and> xMax ?rg = INaN \<and> yMin ?rg = INaN \<and> yMax ?rg = INaN
      \<and> populateLight r ?rg i buf = buf"
    using 3 by (rule impI)
  have i4: "signPreserving fp \<and> far cam \<le> near cam
        \<and> (\<exists>zn zf. zNear fp viewMatrix l = Fin zn \<and> 0 < zn
                   \<and> zFar fp viewMatrix l = Fin zf \<and> 0 < zf)
      \<longrightarrow> zMin ?rg = zMax ?rg \<and> populateLight r ?rg i buf = buf"
    using 4 by (rule impI)
  from 1 i2 i3 i4 show ?thesis by (intro conjI)
qed

theorem cluster_range_in_grid_or_nan_witness:
  "signPreserving exact
   \<and> far camera_near_eq_far \<le> near camera_near_eq_far
   \<and> zNear exact mat4_identity light_2_5 = Fin 3.5
   \<and> zFar exact mat4_identity light_2_5 = Fin 1.5
   \<and> rangeInGrid grid444 (lightClusterRange exact grid444 camera_near_eq_far mat4_identity light_2_5)
   \<and> zMin (lightClusterRange exact grid444 camera_near_eq_far mat4_identity light_2_5)
       = zMax (lightClusterRange exact grid444 camera_near_eq_far mat4_identity light_2_5)
   \<and> populateLight grid444
        (lightClusterRange exact grid444 camera_near_eq_far mat4_identity light_2_5) 0
        (replicate 32256 7) = replicate 32256 7
   \<and> fov camera_fov0 = 0
   \<and> xMin (lightClusterRange exact grid444 camera_fov0 mat4_identity light_2_5) = INaN
   \<and> populateLight grid444
        (lightClusterRange exact grid444 camera_fov0 mat4_identity light_2_5) 0
        (replicate 32256 7) = replicate 32256 7"
proof -
  note t1 = cluster_range_in_grid_or_nan[of grid444 exact camera_near_eq_far mat4_identity light_2_5
      0 "replicate 32256 7"]
  note t2 = cluster_range_in_grid_or_nan[of grid444 exact camera_fov0 mat4_identity light_2_5
      0 "replicate 32256 7"]
  have z: "zNear exact mat4_identity light_2_5 = Fin 3.5" "zFar exact mat4_identity light_2_5 = Fin 1.5"
    by (simp_all add: range_defs light_2_5_def Let_def)
  have nf: "far camera_near_eq_far \<le> near camera_near_eq_far"
    by (simp add: camera_near_eq_far_fields)
  have h: "signPreserving exact \<and> far camera_near_eq_far \<le> near camera_near_eq_far
        \<and> (\<exists>zn zf. zNear exact mat4_identity light_2_5 = Fin zn \<and> 0 < zn
                   \<and> zFar exact mat4_identity light_2_5 = Fin zf \<and> 0 < zf)"
  proof (intro conjI exI)
    show "signPreserving exact" by (rule signPreserving_exact)
    show "far camera_near_eq_far \<le> near camera_near_eq_far" by (rule nf)
    show "zNear exact mat4_identity light_2_5 = Fin 3.5" by (rule z(1))
    show "(0::real) < 3.5" by simp
    show "zFar exact mat4_identity light_2_5 = Fin 1.5" by (rule z(2))
    show "(0::real) < 1.5" by simp
  qed
  have 1: "rangeInGrid grid444
      (lightClusterRange exact grid444 camera_near_eq_far mat4_identity light_2_5)"
    using t1 by (rule conjunct1)
  have 2: "zMin (lightClusterRange exact grid444 camera_near_eq_far mat4_identity light_2_5)
       = zMax (lightClusterRange exact grid444 camera_near_eq_far mat4_identity light_2_5)
     \<and> populateLight grid444
        (lightClusterRange exact grid444 camera_near_eq_far mat4_identity light_2_5) 0
        (replicate 32256 7) = replicate 32256 7"
    using t1[THEN conjunct2, THEN conjunct2, THEN conjunct2, THEN mp, OF h] .
  have f0: "fov camera_fov0 = 0" by (simp add: camera_fov0_def)
  have 3: "xMin (lightClusterRange exact grid444 camera_fov0 mat4_identity light_2_5) = INaN
     \<and> populateLight grid444
        (lightClusterRange exact grid444 camera_fov0 mat4_identity light_2_5) 0
        (replicate 32256 7) = replicate 32256 7"
    using t2[THEN conjunct2, THEN conjunct2, THEN conjunct1, THEN mp, OF f0] by simp
  show ?thesis using signPreserving_exact nf z 1 2 f0 3 by (intro conjI) simp_all
qed

text \<open>
  Claim C7, evaluated on the code. With the identity view matrix and a light at depth
  2.75, growing the radius from 0.125 to 0.25 moves \<open>zMin\<close> from 2 up to 3 and empties the
  z range: \<open>zNear = -viewBBMin.z\<close> is the larger depth and is rounded down, \<open>zFar\<close> is
  the smaller depth and is rounded up.
\<close>

theorem larger_radius_empties_z_range:
  "position light_grown = position light_small \<and> radius light_small < radius light_grown
   \<and> 0 < radius light_small
   \<and> lightClusterRange exact grid444 camera90 mat4_identity light_small
       = \<lparr>xMin = IFin 1, xMax = IFin 3, yMin = IFin 1, yMax = IFin 3, zMin = IFin 2, zMax = IFin 3\<rparr>
   \<and> lightClusterRange exact grid444 camera90 mat4_identity light_grown
       = \<lparr>xMin = IFin 1, xMax = IFin 3, yMin = IFin 1, yMax = IFin 3, zMin = IFin 3, zMax = IFin 3\<rparr>"
proof -
  have 1: "position light_grown = position light_small" "radius light_small < radius light_grown"
    "0 < radius light_small"
    by (simp_all add: light_small_def light_grown_def)
  have 2: "lightClusterRange exact grid444 camera90 mat4_identity light_small
       = \<lparr>xMin = IFin 1, xMax = IFin 3, yMin = IFin 1, yMax = IFin 3, zMin = IFin 2, zMax = IFin 3\<rparr>"
    by (simp add: lightClusterRange_def range_defs tanFov_camera90 camera90_fields grid444_def
        light_small_def Let_def)
  have 3: "lightClusterRange exact grid444 camera90 mat4_identity light_grown
       = \<lparr>xMin = IFin 1, xMax = IFin 3, yMin = IFin 1, yMax = IFin 3, zMin = IFin 3, zMax = IFin 3\<rparr>"
    by (simp add: lightClusterRange_def range_defs tanFov_camera90 camera90_fields grid444_def
        light_grown_def Let_def)
  show ?thesis using 1 2 3 by (intro conjI)
qed

text \<open>
  Claim C8, as the code has it. The constructor checks nothing: a zero dimension gives a
  renderer with an empty grid and an empty buffer instead of a failure.
\<close>

theorem constructor_zero_dimension_counterexample:
  "BaseRenderer_constructor 0 4 4 =
     Inr \<lparr>clusterTexture = \<lparr>pixelsPerElement = 126, buffer = []\<rparr>,
          xSlices = 0, ySlices = 4, zSlices = 4, elementCount = 0, elementSize = 126\<rparr>"
  by (simp add: BaseRenderer_constructor_def newTextureBuffer_def MAX_LIGHTS_PER_CLUSTER_def Let_def)

text \<open>
  Claim C8, amended. Whenever the product of the three dimensions is not negative (a
  zero dimension and two negative dimensions included), the constructor returns a
  renderer that stores the dimensions as given, their product as the element count, the
  element size 126 and a buffer of zeros of \<open>elementCount * 126 * 4\<close> numbers. The
  capacity is the constant 500 of the module, not a parameter.
\<close>

theorem constructor_validates_nothing:
  assumes "0 \<le> xs * ys * zs"
  shows "BaseRenderer_constructor xs ys zs =
     Inr \<lparr>clusterTexture =
            \<lparr>pixelsPerElement = 126, buffer = replicate (nat (xs * ys * zs * 126 * 4)) 0\<rparr>,
          xSlices = xs, ySlices = ys, zSlices = zs, elementCount = xs * ys * zs,
          elementSize = 126\<rparr>"
proof -
  have "\<not> xs * ys * zs * 126 * 4 < 0" using assms by simp
  then show ?thesis
    by (simp add: BaseRenderer_constructor_def newTextureBuffer_def MAX_LIGHTS_PER_CLUSTER_def Let_def)
qed

theorem constructor_validates_nothing_witness:
  "(0::int) \<le> (- 2) * (- 3) * 1
   \<and> BaseRenderer_constructor (- 2) (- 3) 1 =
     Inr \<lparr>clusterTexture = \<lparr>pixelsPerElement = 126, buffer = replicate 3024 0\<rparr>,
          xSlices = - 2, ySlices = - 3, zSlices = 1, elementCount = 6, elementSize = 126\<rparr>"
proof -
  have h: "(0::int) \<le> (- 2) * (- 3) * 1" by simp
  from constructor_validates_nothing[OF h] h show ?thesis by simp
qed

text \<open>
  Claim C9. On a renderer as the constructor builds it, with dimensions that are not
  negative, and on any contents of the buffer, the reset loop sets the count slot of
  every cluster index in \<open>[0, elementCount)\<close> to 0, which are the count slots of the
  cells of the grid; run twice it gives the same buffer as run once; it changes none of
  the 500 light-index slots of any cluster; and it keeps the length of the buffer.
\<close>

theorem reset_zeroes_counts_idempotent:
  assumes ok: "rendererOK r"
    and len: "length buf = length (buffer (clusterTexture r))"
    and dims: "0 \<le> xSlices r" "0 \<le> ySlices r" "0 \<le> zSlices r"
  shows "(\<forall>c. 0 \<le> c \<and> c < elementCount r
            \<longrightarrow> bufRead (resetCounts r buf) (bufferIndex (clusterTexture r) c 0) = Some 0)
       \<and> (\<forall>x y z. 0 \<le> x \<and> x < xSlices r \<and> 0 \<le> y \<and> y < ySlices r \<and> 0 \<le> z \<and> z < zSlices r
            \<longrightarrow> bufRead (resetCounts r buf)
                  (bufferIndex (clusterTexture r) (clusterIndex1D r x y z) 0) = Some 0)
       \<and> resetCounts r (resetCounts r buf) = resetCounts r buf
       \<and> (\<forall>c k. 1 \<le> k \<and> k \<le> MAX_LIGHTS_PER_CLUSTER
            \<longrightarrow> bufRead (resetCounts r buf)
                  (bufferIndex (clusterTexture r) c (pixelNum k) + pixelComponent k)
                = bufRead buf (bufferIndex (clusterTexture r) c (pixelNum k) + pixelComponent k))
       \<and> length (resetCounts r buf) = length buf"
proof -
  have pe: "pixelsPerElement (clusterTexture r) = 126" using ok by (simp add: rendererOK_def)
  have ec: "elementCount r = xSlices r * ySlices r * zSlices r" using ok by (simp add: rendererOK_def)
  have a: "bufRead (resetCounts r buf) (bufferIndex (clusterTexture r) (clusterIndex1D r x y z) 0) = Some 0"
    if b: "0 \<le> x \<and> x < xSlices r \<and> 0 \<le> y \<and> y < ySlices r \<and> 0 \<le> z \<and> z < zSlices r" for x y z
  proof -
    let ?j = "clusterIndex1D r x y z * 504"
    have 1: "?j \<in> set (countSlots r)" by (rule count_slot_in_countSlots[OF pe b])
    have 2: "0 \<le> ?j" "?j < int (length buf)"
      using count_slot_in_buffer[OF ok b] by (simp_all only: len)
    have "bufRead (resetCounts r buf) ?j = Some 0"
      unfolding bufRead_resetCounts using 1 2 by simp
    then show ?thesis by (simp only: count_slot_eq[OF pe])
  qed
  have a': "bufRead (resetCounts r buf) (bufferIndex (clusterTexture r) c 0) = Some 0"
    if c: "0 \<le> c \<and> c < elementCount r" for c
  proof -
    from c obtain x y z
      where b: "0 \<le> x \<and> x < xSlices r \<and> 0 \<le> y \<and> y < ySlices r \<and> 0 \<le> z \<and> z < zSlices r"
        and e: "clusterIndex1D r x y z = c"
      using clusterIndex1D_onto[OF dims, of c] unfolding ec by blast
    show ?thesis using a[OF b] unfolding e .
  qed
  have c: "bufRead (resetCounts r buf) (bufferIndex (clusterTexture r) c (pixelNum k) + pixelComponent k)
          = bufRead buf (bufferIndex (clusterTexture r) c (pixelNum k) + pixelComponent k)"
    if k: "1 \<le> k \<and> k \<le> MAX_LIGHTS_PER_CLUSTER" for c k
  proof -
    have "1 \<le> k" "k \<le> 500" using k by (simp_all add: MAX_LIGHTS_PER_CLUSTER_def)
    then have "c * 504 + int k \<notin> set (countSlots r)" by (rule index_slot_not_countSlot[OF pe])
    then have "bufRead (resetCounts r buf) (c * 504 + int k) = bufRead buf (c * 504 + int k)"
      unfolding bufRead_resetCounts by simp
    then show ?thesis by (simp only: slot_eq[OF pe])
  qed
  show ?thesis
  proof (intro conjI allI impI)
    fix c
    assume "0 \<le> c \<and> c < elementCount r"
    then show "bufRead (resetCounts r buf) (bufferIndex (clusterTexture r) c 0) = Some 0"
      by (rule a')
  next
    fix x y z
    assume "0 \<le> x \<and> x < xSlices r \<and> 0 \<le> y \<and> y < ySlices r \<and> 0 \<le> z \<and> z < zSlices r"
    then show "bufRead (resetCounts r buf)
        (bufferIndex (clusterTexture r) (clusterIndex1D r x y z) 0) = Some 0" by (rule a)
  next
    show "resetCounts r (resetCounts r buf) = resetCounts r buf" by (rule resetCounts_idem)
  next
    fix c k
    assume "1 \<le> k \<and> k \<le> MAX_LIGHTS_PER_CLUSTER"
    then show "bufRead (resetCounts r buf)
          (bufferIndex (clusterTexture r) c (pixelNum k) + pixelComponent k)
        = bufRead buf (bufferIndex (clusterTexture r) c (pixelNum k) + pixelComponent k)"
      by (rule c)
  next
    show "length (resetCounts r buf) = length buf" by simp
  qed
qed

theorem reset_zeroes_counts_idempotent_witness:
  "rendererOK grid444
   \<and> length (replicate 32256 (7::nat)) = length (buffer (clusterTexture grid444))
   \<and> 0 \<le> xSlices grid444 \<and> 0 \<le> ySlices grid444 \<and> 0 \<le> zSlices grid444
   \<and> elementCount grid444 = 64
   \<and> bufRead (replicate 32256 7) (bufferIndex (clusterTexture grid444) 63 0) = Some 7
   \<and> bufRead (resetCounts grid444 (replicate 32256 7)) (bufferIndex (clusterTexture grid444) 63 0)
       = Some 0
   \<and> bufRead (resetCounts grid444 (replicate 32256 7)) (bufferIndex (clusterTexture grid444) 0 0)
       = Some 0
   \<and> resetCounts grid444 (resetCounts grid444 (replicate 32256 7))
       = resetCounts grid444 (replicate 32256 7)
   \<and> bufRead (resetCounts grid444 (replicate 32256 7))
        (bufferIndex (clusterTexture grid444) 63 (pixelNum 5) + pixelComponent 5) = Some 7"
proof -
  let ?b = "replicate 32256 (7::nat)"
  have ok: "rendererOK grid444" by (rule rendererOK_grid444)
  have len: "length ?b = length (buffer (clusterTexture grid444))" by (simp add: grid444_def)
  have d: "0 \<le> xSlices grid444" "0 \<le> ySlices grid444" "0 \<le> zSlices grid444"
    by (simp_all add: grid444_def)
  note t = reset_zeroes_counts_idempotent[OF ok len d]
  have ec: "elementCount grid444 = 64" by (simp add: grid444_def)
  have c63: "(0::int) \<le> 63 \<and> 63 < elementCount grid444" by (simp add: ec)
  have c0: "(0::int) \<le> 0 \<and> 0 < elementCount grid444" by (simp add: ec)
  have 1: "bufRead (resetCounts grid444 ?b) (bufferIndex (clusterTexture grid444) 63 0) = Some 0"
    using t[THEN conjunct1, THEN spec, THEN mp, OF c63] .
  have 2: "bufRead (resetCounts grid444 ?b) (bufferIndex (clusterTexture grid444) 0 0) = Some 0"
    using t[THEN conjunct1, THEN spec, THEN mp, OF c0] .
  have 3: "resetCounts grid444 (resetCounts grid444 ?b) = resetCounts grid444 ?b"
    using t[THEN conjunct2, THEN conjunct2, THEN conjunct1] .
  have k: "1 \<le> (5::nat) \<and> 5 \<le> MAX_LIGHTS_PER_CLUSTER" by (simp add: MAX_LIGHTS_PER_CLUSTER_def)
  have "bufRead (resetCounts grid444 ?b)
        (bufferIndex (clusterTexture grid444) 63 (pixelNum 5) + pixelComponent 5)
       = bufRead ?b (bufferIndex (clusterTexture grid444) 63 (pixelNum 5) + pixelComponent 5)"
    using t[THEN conjunct2, THEN conjunct2, THEN conjunct2, THEN conjunct1, THEN spec, THEN spec,
        THEN mp, OF k] .
  also have "\<dots> = Some 7"
    by (simp add: bufRead_def bufferIndex_def pixelNum_def pixelComponent_def grid444_def)
  finally have 4: "bufRead (resetCounts grid444 ?b)
        (bufferIndex (clusterTexture grid444) 63 (pixelNum 5) + pixelComponent 5) = Some 7" .
  have 5: "bufRead ?b (bufferIndex (clusterTexture grid444) 63 0) = Some 7"
    by (simp add: bufRead_def bufferIndex_def grid444_def)
  show ?thesis using ok len d ec 5 1 2 3 4 by (intro conjI)
qed

text \<open>
  Claim C10. On a renderer as the constructor builds it, \<open>elementSize\<close> is
  \<open>ceil((500 + 1) / 4) = 126\<close>, and updateClusters is the reset loop followed by the
  population loop of each light, each of which keeps the length of the buffer. The reset
  loop writes at the count slots of the cells of the grid only, all of them inside the
  buffer. The population loop of a light calls \<open>addLight\<close> on the clusters of the
  light's range only, whose indices all lie in \<open>[0, elementCount)\<close>. On such a cluster
  \<open>addLight\<close> reads the count; when it is below the capacity, the incremented count is
  at most 500, its pixel number is at most 125 and below \<open>elementSize\<close>, the count slot
  and the index slot lie inside the buffer, and these two are the only entries written;
  when the count has reached the capacity, nothing is written.
\<close>

theorem writes_stay_in_buffer:
  assumes ok: "rendererOK r" and len: "length buf = length (buffer (clusterTexture r))"
  shows "elementSize r = \<lceil>(real MAX_LIGHTS_PER_CLUSTER + 1.0) / 4.0\<rceil> \<and> elementSize r = 126
       \<and> buffer (clusterTexture (updateClusters fp r cam viewMatrix sc))
           = fold (\<lambda>j b. populateLight r (lightClusterRange fp r cam viewMatrix (lights sc ! j)) j b)
               [0..<length (lights sc)] (resetCounts r (buffer (clusterTexture r)))
       \<and> length (resetCounts r buf) = length buf
       \<and> length (populateLight r rg i buf) = length buf
       \<and> resetCounts r buf = fold (\<lambda>k b. b[nat k := 0]) (countSlots r) buf
       \<and> (\<forall>k\<in>set (countSlots r). 0 \<le> k \<and> k < int (length buf))
       \<and> populateLight r (lightClusterRange fp r cam viewMatrix l) i buf
           = fold (\<lambda>c b. addLight r b c i)
               (visitedClusters r (lightClusterRange fp r cam viewMatrix l)) buf
       \<and> (\<forall>c\<in>set (visitedClusters r (lightClusterRange fp r cam viewMatrix l)).
             0 \<le> c \<and> c < elementCount r)
       \<and> (\<forall>c. 0 \<le> c \<and> c < elementCount r \<longrightarrow>
             length (addLight r buf c i) = length buf
             \<and> (\<exists>cnt. bufRead buf (bufferIndex (clusterTexture r) c 0) = Some cnt
                 \<and> (if cnt < MAX_LIGHTS_PER_CLUSTER then
                      cnt + 1 \<le> MAX_LIGHTS_PER_CLUSTER
                      \<and> 0 \<le> pixelNum (cnt + 1) \<and> pixelNum (cnt + 1) < elementSize r
                      \<and> 0 \<le> bufferIndex (clusterTexture r) c 0
                      \<and> bufferIndex (clusterTexture r) c 0 < int (length buf)
                      \<and> 0 \<le> bufferIndex (clusterTexture r) c (pixelNum (cnt + 1))
                              + pixelComponent (cnt + 1)
                      \<and> bufferIndex (clusterTexture r) c (pixelNum (cnt + 1))
                              + pixelComponent (cnt + 1) < int (length buf)
                      \<and> addLight r buf c i
                          = (buf[nat (bufferIndex (clusterTexture r) c 0) := cnt + 1])
                              [nat (bufferIndex (clusterTexture r) c (pixelNum (cnt + 1))
                                    + pixelComponent (cnt + 1)) := i]
                    else addLight r buf c i = buf)))"
proof (intro conjI ballI allI impI)
  have es: "elementSize r = 126" using ok by (simp add: rendererOK_def)
  show "elementSize r = \<lceil>(real MAX_LIGHTS_PER_CLUSTER + 1.0) / 4.0\<rceil>"
    by (simp add: es MAX_LIGHTS_PER_CLUSTER_def)
  show "elementSize r = 126" by (rule es)
  show "buffer (clusterTexture (updateClusters fp r cam viewMatrix sc))
           = fold (\<lambda>j b. populateLight r (lightClusterRange fp r cam viewMatrix (lights sc ! j)) j b)
               [0..<length (lights sc)] (resetCounts r (buffer (clusterTexture r)))"
    by (simp add: updateClusters_def populate_def)
  show "length (resetCounts r buf) = length buf" by simp
  show "length (populateLight r rg i buf) = length buf" by simp
  have inr: "\<forall>k\<in>set (countSlots r). 0 \<le> k \<and> k < int (length buf)"
    using countSlots_in_buffer[OF ok len] by blast
  show "resetCounts r buf = fold (\<lambda>k b. b[nat k := 0]) (countSlots r) buf"
    unfolding resetCounts_fold by (rule fold_bufWrite_in_range[OF inr])
  show "populateLight r (lightClusterRange fp r cam viewMatrix l) i buf
           = fold (\<lambda>c b. addLight r b c i)
               (visitedClusters r (lightClusterRange fp r cam viewMatrix l)) buf"
    by (rule populateLight_fold)
next
  fix k assume "k \<in> set (countSlots r)"
  then show "0 \<le> k" "k < int (length buf)" using countSlots_in_buffer[OF ok len] by blast+
next
  fix c assume "c \<in> set (visitedClusters r (lightClusterRange fp r cam viewMatrix l))"
  then show "0 \<le> c" "c < elementCount r" using visitedClusters_in_grid[OF ok] by blast+
next
  fix c assume c: "0 \<le> c \<and> c < elementCount r"
  show "length (addLight r buf c i) = length buf" by simp
  show "\<exists>cnt. bufRead buf (bufferIndex (clusterTexture r) c 0) = Some cnt
     \<and> (if cnt < MAX_LIGHTS_PER_CLUSTER then
          cnt + 1 \<le> MAX_LIGHTS_PER_CLUSTER
          \<and> 0 \<le> pixelNum (cnt + 1) \<and> pixelNum (cnt + 1) < elementSize r
          \<and> 0 \<le> bufferIndex (clusterTexture r) c 0
          \<and> bufferIndex (clusterTexture r) c 0 < int (length buf)
          \<and> 0 \<le> bufferIndex (clusterTexture r) c (pixelNum (cnt + 1)) + pixelComponent (cnt + 1)
          \<and> bufferIndex (clusterTexture r) c (pixelNum (cnt + 1)) + pixelComponent (cnt + 1)
              < int (length buf)
          \<and> addLight r buf c i
              = (buf[nat (bufferIndex (clusterTexture r) c 0) := cnt + 1])
                  [nat (bufferIndex (clusterTexture r) c (pixelNum (cnt + 1))
                        + pixelComponent (cnt + 1)) := i]
        else addLight r buf c i = buf)"
    by (rule addLight_writes[OF ok len c])
qed

theorem writes_stay_in_buffer_witness:
  "rendererOK grid444
   \<and> length (replicate 32256 (7::nat)) = length (buffer (clusterTexture grid444))
   \<and> length (replicate 32256 (500::nat)) = length (buffer (clusterTexture grid444))
   \<and> elementCount grid444 = 64
   \<and> 37 \<in> set (visitedClusters grid444
                   (lightClusterRange exact grid444 camera90 mat4_identity light_2_5))
   \<and> addLight grid444 (replicate 32256 7) 37 3 = (replicate 32256 7)[18648 := 8, 18656 := 3]
   \<and> addLight grid444 (replicate 32256 500) 37 3 = replicate 32256 500"
proof -
  let ?b = "replicate 32256 (7::nat)"
  let ?f = "replicate 32256 (500::nat)"
  have ok: "rendererOK grid444" by (rule rendererOK_grid444)
  have len: "length ?b = length (buffer (clusterTexture grid444))"
    "length ?f = length (buffer (clusterTexture grid444))"
    by (simp_all add: grid444_def)
  have ec: "elementCount grid444 = 64" by (simp add: grid444_def)
  have c: "(0::int) \<le> 37 \<and> 37 < elementCount grid444" by (simp add: ec)
  have ix: "bufferIndex (clusterTexture grid444) 37 0 = 18648"
    "bufferIndex (clusterTexture grid444) 37 (pixelNum (7 + 1)) + pixelComponent (7 + 1) = 18656"
    by (simp_all add: bufferIndex_def pixelNum_def pixelComponent_def grid444_def)
  have r7: "bufRead ?b 18648 = Some 7" and r500: "bufRead ?f 18648 = Some 500"
    by (simp_all add: bufRead_def)
  note t7 = writes_stay_in_buffer[OF ok len(1), of exact camera90 mat4_identity
      "\<lparr>lights = []\<rparr>" cell_1_1_2 3 light_2_5]
  note t500 = writes_stay_in_buffer[OF ok len(2), of exact camera90 mat4_identity
      "\<lparr>lights = []\<rparr>" cell_1_1_2 3 light_2_5]
  have a7: "\<exists>cnt. bufRead ?b (bufferIndex (clusterTexture grid444) 37 0) = Some cnt
     \<and> (if cnt < MAX_LIGHTS_PER_CLUSTER then
          cnt + 1 \<le> MAX_LIGHTS_PER_CLUSTER
          \<and> 0 \<le> pixelNum (cnt + 1) \<and> pixelNum (cnt + 1) < elementSize grid444
          \<and> 0 \<le> bufferIndex (clusterTexture grid444) 37 0
          \<and> bufferIndex (clusterTexture grid444) 37 0 < int (length ?b)
          \<and> 0 \<le> bufferIndex (clusterTexture grid444) 37 (pixelNum (cnt + 1)) + pixelComponent (cnt + 1)
          \<and> bufferIndex (clusterTexture grid444) 37 (pixelNum (cnt + 1)) + pixelComponent (cnt + 1)
              < int (length ?b)
          \<and> addLight grid444 ?b 37 3
              = (?b[nat (bufferIndex (clusterTexture grid444) 37 0) := cnt + 1])
                  [nat (bufferIndex (clusterTexture grid444) 37 (pixelNum (cnt + 1))
                        + pixelComponent (cnt + 1)) := 3]
        else addLight grid444 ?b 37 3 = ?b)"
    using t7 c by blast
  then obtain cnt where cnt: "bufRead ?b (bufferIndex (clusterTexture grid444) 37 0) = Some cnt"
    and w: "if cnt < MAX_LIGHTS_PER_CLUSTER then
          addLight grid444 ?b 37 3
              = (?b[nat (bufferIndex (clusterTexture grid444) 37 0) := cnt + 1])
                  [nat (bufferIndex (clusterTexture grid444) 37 (pixelNum (cnt + 1))
                        + pixelComponent (cnt + 1)) := 3]
        else addLight grid444 ?b 37 3 = ?b"
    by (auto split: if_splits)
  have "cnt = 7" using cnt r7 unfolding ix by simp
  then have 1: "addLight grid444 ?b 37 3 = ?b[18648 := 8, 18656 := 3]"
    using w ix by (simp add: MAX_LIGHTS_PER_CLUSTER_def)
  have a500: "\<exists>cnt. bufRead ?f (bufferIndex (clusterTexture grid444) 37 0) = Some cnt
     \<and> (if cnt < MAX_LIGHTS_PER_CLUSTER then
          cnt + 1 \<le> MAX_LIGHTS_PER_CLUSTER
          \<and> 0 \<le> pixelNum (cnt + 1) \<and> pixelNum (cnt + 1) < elementSize grid444
          \<and> 0 \<le> bufferIndex (clusterTexture grid444) 37 0
          \<and> bufferIndex (clusterTexture grid444) 37 0 < int (length ?f)
          \<and> 0 \<le> bufferIndex (clusterTexture grid444) 37 (pixelNum (cnt + 1)) + pixelComponent (cnt + 1)
          \<and> bufferIndex (clusterTexture grid444) 37 (pixelNum (cnt + 1)) + pixelComponent (cnt + 1)
              < int (length ?f)
          \<and> addLight grid444 ?f 37 3
              = (?f[nat (bufferIndex (clusterTexture grid444) 37 0) := cnt + 1])
                  [nat (bufferIndex (clusterTexture grid444) 37 (pixelNum (cnt + 1))
                        + pixelComponent (cnt + 1)) := 3]
        else addLight grid444 ?f 37 3 = ?f)"
    using t500 c by blast
  then obtain cnt' where cnt': "bufRead ?f (bufferIndex (clusterTexture grid444) 37 0) = Some cnt'"
    and w': "\<not> cnt' < MAX_LIGHTS_PER_CLUSTER \<longrightarrow> addLight grid444 ?f 37 3 = ?f"
    by (auto split: if_splits)
  have "cnt' = 500" using cnt' r500 unfolding ix by simp
  then have 2: "addLight grid444 ?f 37 3 = ?f" using w' by (simp add: MAX_LIGHTS_PER_CLUSTER_def)
  have 3: "37 \<in> set (visitedClusters grid444
                   (lightClusterRange exact grid444 camera90 mat4_identity light_2_5))"
  proof -
    have b: "(0::int) \<le> 1 \<and> 1 < xSlices grid444 \<and> (0::int) \<le> 1 \<and> 1 < ySlices grid444
        \<and> (0::int) \<le> 2 \<and> 2 < zSlices grid444" by (simp add: grid444_def)
    have "inClusterRange (lightClusterRange exact grid444 camera90 mat4_identity light_2_5) 1 1 2"
      by (simp add: range_light_2_5 inClusterRange_def)
    then have "clusterIndex1D grid444 1 1 2
        \<in> set (visitedClusters grid444 (lightClusterRange exact grid444 camera90 mat4_identity light_2_5))"
      using visitedClusters_iff[OF lightClusterRange_inGrid b] by simp
    then show ?thesis by (simp add: clusterIndex1D_def grid444_def)
  qed
  show ?thesis using ok len ec 3 1 2 by (intro conjI)
qed

end
